theory Spec2Isabelle
  imports Complex_Main "HOL-Library.Char_ord" "HOL-Library.List_Lexorder" "HOL-Library.Log_Nat"
begin

section \<open>JavaScript numbers\<close>

text \<open>
  A JavaScript \<^verbatim>\<open>number\<close> is modelled as a finite real, a not-a-number value or one of
  the two infinities. Zero is unsigned: the only divisors of the program are lengths,
  counters and one mean that is compared with zero first. Numbers read from the JSON
  file are finite, so the fields of an entry are plain reals.

  The operations \<open>js_plus\<close>, \<open>js_times\<close> and \<open>js_div\<close> are exact on finite
  numbers. They model the filters, the overall statistics, the histogram and the growth
  trend, where each property compares a result with the same expression over the same
  entries, or counts whole numbers. The category statistics are different: their shares
  add up to 100 only as far as doubles round, so they use the rounded operations
  \<open>js_plus64\<close>, \<open>js_times64\<close> and \<open>js_div64\<close> defined below.
\<close>

datatype jsnum = Fin real | NaN | PosInf | NegInf

fun js_plus :: "jsnum \<Rightarrow> jsnum \<Rightarrow> jsnum" where
  "js_plus (Fin a) (Fin b) = Fin (a + b)"
| "js_plus NaN _ = NaN"
| "js_plus _ NaN = NaN"
| "js_plus PosInf NegInf = NaN"
| "js_plus NegInf PosInf = NaN"
| "js_plus PosInf _ = PosInf"
| "js_plus _ PosInf = PosInf"
| "js_plus NegInf _ = NegInf"
| "js_plus _ NegInf = NegInf"

fun js_uminus :: "jsnum \<Rightarrow> jsnum" where
  "js_uminus (Fin a) = Fin (- a)"
| "js_uminus NaN = NaN"
| "js_uminus PosInf = NegInf"
| "js_uminus NegInf = PosInf"

definition js_minus :: "jsnum \<Rightarrow> jsnum \<Rightarrow> jsnum" where
  "js_minus a b = js_plus a (js_uminus b)"

fun js_times :: "jsnum \<Rightarrow> jsnum \<Rightarrow> jsnum" where
  "js_times (Fin a) (Fin b) = Fin (a * b)"
| "js_times NaN _ = NaN"
| "js_times _ NaN = NaN"
| "js_times PosInf (Fin b) = (if b = 0 then NaN else if 0 < b then PosInf else NegInf)"
| "js_times NegInf (Fin b) = (if b = 0 then NaN else if 0 < b then NegInf else PosInf)"
| "js_times (Fin a) PosInf = (if a = 0 then NaN else if 0 < a then PosInf else NegInf)"
| "js_times (Fin a) NegInf = (if a = 0 then NaN else if 0 < a then NegInf else PosInf)"
| "js_times PosInf PosInf = PosInf"
| "js_times NegInf NegInf = PosInf"
| "js_times PosInf NegInf = NegInf"
| "js_times NegInf PosInf = NegInf"

fun js_div :: "jsnum \<Rightarrow> jsnum \<Rightarrow> jsnum" where
  "js_div (Fin a) (Fin b) =
     (if b = 0 then (if a = 0 then NaN else if 0 < a then PosInf else NegInf)
      else Fin (a / b))"
| "js_div NaN _ = NaN"
| "js_div _ NaN = NaN"
| "js_div (Fin a) PosInf = Fin 0"
| "js_div (Fin a) NegInf = Fin 0"
| "js_div PosInf (Fin b) = (if 0 \<le> b then PosInf else NegInf)"
| "js_div NegInf (Fin b) = (if 0 \<le> b then NegInf else PosInf)"
| "js_div PosInf _ = NaN"
| "js_div NegInf _ = NaN"

text \<open>The comparison \<^verbatim>\<open>a < b\<close>: false as soon as one side is not a number.\<close>

fun js_lt :: "jsnum \<Rightarrow> jsnum \<Rightarrow> bool" where
  "js_lt (Fin a) (Fin b) = (a < b)"
| "js_lt NaN _ = False"
| "js_lt _ NaN = False"
| "js_lt NegInf NegInf = False"
| "js_lt NegInf _ = True"
| "js_lt _ NegInf = False"
| "js_lt PosInf _ = False"
| "js_lt _ PosInf = True"

definition js_gt :: "jsnum \<Rightarrow> jsnum \<Rightarrow> bool" where
  "js_gt a b = js_lt b a"

text \<open>Strict equality \<^verbatim>\<open>a === b\<close> on numbers: not-a-number equals nothing.\<close>

definition js_eq :: "jsnum \<Rightarrow> jsnum \<Rightarrow> bool" where
  "js_eq a b = (a \<noteq> NaN \<and> a = b)"

definition is_NaN :: "jsnum \<Rightarrow> bool" where
  "is_NaN a = (a = NaN)"

text \<open>
  \<^verbatim>\<open>Math.max(...xs)\<close> and \<^verbatim>\<open>Math.min(...xs)\<close>: with no argument
  they return minus infinity and plus infinity.
\<close>

definition js_max2 :: "jsnum \<Rightarrow> jsnum \<Rightarrow> jsnum" where
  "js_max2 a b = (if a = NaN \<or> b = NaN then NaN else if js_lt a b then b else a)"

definition js_min2 :: "jsnum \<Rightarrow> jsnum \<Rightarrow> jsnum" where
  "js_min2 a b = (if a = NaN \<or> b = NaN then NaN else if js_lt b a then b else a)"

definition Math_max :: "real list \<Rightarrow> jsnum" where
  "Math_max xs = foldl (\<lambda>acc x. js_max2 acc (Fin x)) NegInf xs"

definition Math_min :: "real list \<Rightarrow> jsnum" where
  "Math_min xs = foldl (\<lambda>acc x. js_min2 acc (Fin x)) PosInf xs"

text \<open>The sum of a list of numbers, left to right from zero.\<close>

definition js_sum :: "jsnum list \<Rightarrow> jsnum" where
  "js_sum xs = foldl js_plus (Fin 0) xs"

subsection \<open>Rounding to doubles\<close>

text \<open>
  A double is a binary64 number: 53 significant bits, exponents from \<open>-1022\<close> to
  \<open>1023\<close>. An arithmetic operation returns the exact result rounded to the nearest
  double, a tie going to the even significand. \<open>binade x\<close> is the exponent \<open>e\<close> with
  \<open>2 powi e \<le> x < 2 powi (e + 1)\<close> for a positive \<open>x\<close>, read off the number of
  binary digits (\<open>bitlen\<close>) of a whole number next to \<open>x\<close> or to \<open>1 / x\<close>. Below
  \<open>2 powi (- 1022)\<close> the doubles are spaced as in the lowest binade, and a result that
  rounds to \<open>2 powi 1024\<close> or more is an infinity.
\<close>

definition round_half_even :: "real \<Rightarrow> int" where
  "round_half_even r =
     (let f = \<lfloor>r\<rfloor>; d = r - of_int f
      in if d < 1 / 2 then f else if 1 / 2 < d then f + 1 else if even f then f else f + 1)"

definition binade :: "real \<Rightarrow> int" where
  "binade x = (if 1 \<le> x then bitlen \<lfloor>x\<rfloor> - 1 else - bitlen (\<lceil>1 / x\<rceil> - 1))"

definition to_double :: "real \<Rightarrow> jsnum" where
  "to_double x =
     (if x = 0 then Fin 0
      else
        (let e = max (binade \<bar>x\<bar>) (- 1022);
             q = 2 powi (e - 52);
             r = of_int (round_half_even (\<bar>x\<bar> / q)) * q
         in if 2 powi 1024 \<le> r then (if 0 < x then PosInf else NegInf)
            else Fin (sgn x * r)))"

definition rounded :: "jsnum \<Rightarrow> jsnum" where
  "rounded v = (case v of Fin r \<Rightarrow> to_double r | NaN \<Rightarrow> NaN | PosInf \<Rightarrow> PosInf | NegInf \<Rightarrow> NegInf)"

definition js_plus64 :: "jsnum \<Rightarrow> jsnum \<Rightarrow> jsnum" where
  "js_plus64 a b = rounded (js_plus a b)"

definition js_times64 :: "jsnum \<Rightarrow> jsnum \<Rightarrow> jsnum" where
  "js_times64 a b = rounded (js_times a b)"

definition js_div64 :: "jsnum \<Rightarrow> jsnum \<Rightarrow> jsnum" where
  "js_div64 a b = rounded (js_div a b)"

text \<open>The sum of a list of numbers in doubles, left to right from zero.\<close>

definition js_sum64 :: "jsnum list \<Rightarrow> jsnum" where
  "js_sum64 xs = foldl js_plus64 (Fin 0) xs"

subsection \<open>Sorting\<close>

text \<open>
  \<^verbatim>\<open>Array.prototype.sort(cmp)\<close> is stable: an element goes before the first element
  it compares strictly less than, and stays behind every element it ties with.
\<close>

fun js_insert :: "('a \<Rightarrow> 'a \<Rightarrow> jsnum) \<Rightarrow> 'a \<Rightarrow> 'a list \<Rightarrow> 'a list" where
  "js_insert cmp x [] = [x]"
| "js_insert cmp x (y # ys) =
     (if js_lt (cmp x y) (Fin 0) then x # y # ys else y # js_insert cmp x ys)"

definition js_sort :: "('a \<Rightarrow> 'a \<Rightarrow> jsnum) \<Rightarrow> 'a list \<Rightarrow> 'a list" where
  "js_sort cmp xs = foldl (\<lambda>acc x. js_insert cmp x acc) [] xs"

section \<open>The data model (types.ts)\<close>

text \<open>
  The two string unions are datatypes and the interfaces are records. The field
  \<^verbatim>\<open>text\<close> of an entry is \<open>entry_text\<close> here.
\<close>

datatype ConfidenceType = Personal | Professional

datatype Category =
    Career_development
  | Personal_growth
  | Professional_presentation
  | Technical_skills
  | Social_interactions
  | Self_image
  | Physical_wellness
  | Creative_work

record ConfidenceEntry =
  entry_text :: string
  category :: Category
  confidence_type :: ConfidenceType
  power_level :: real

record DailyData =
  entries :: "ConfidenceEntry list"
  daily_confidence_average :: jsnum
  dominant_confidence_area :: ConfidenceType

text \<open>
  \<^verbatim>\<open>ConfidenceData\<close> is an object keyed by date strings. An object lists the keys
  that are no array indices (dates and type names are none) in insertion order, so it is
  an association list; the keys of an object are distinct. \<open>obj_set\<close> is the
  assignment \<^verbatim>\<open>o[k] = v\<close>: an existing key keeps its place, a new key goes last.
\<close>

type_synonym ConfidenceData = "(string \<times> DailyData) list"

fun obj_set :: "'k \<Rightarrow> 'v \<Rightarrow> ('k \<times> 'v) list \<Rightarrow> ('k \<times> 'v) list" where
  "obj_set k v [] = [(k, v)]"
| "obj_set k v ((k', v') # kvs) =
     (if k = k' then (k, v) # kvs else (k', v') # obj_set k v kvs)"

definition Object_keys :: "('k \<times> 'v) list \<Rightarrow> 'k list" where
  "Object_keys obj = map fst obj"

definition Object_values :: "('k \<times> 'v) list \<Rightarrow> 'v list" where
  "Object_values obj = map snd obj"

text \<open>The names of the two types and of the categories, as the JSON file spells them.\<close>

fun type_name :: "ConfidenceType \<Rightarrow> string" where
  "type_name Personal = ''personal''"
| "type_name Professional = ''professional''"

fun category_name :: "Category \<Rightarrow> string" where
  "category_name Career_development = ''career_development''"
| "category_name Personal_growth = ''personal_growth''"
| "category_name Professional_presentation = ''professional_presentation''"
| "category_name Technical_skills = ''technical_skills''"
| "category_name Social_interactions = ''social_interactions''"
| "category_name Self_image = ''self_image''"
| "category_name Physical_wellness = ''physical_wellness''"
| "category_name Creative_work = ''creative_work''"

section \<open>The React dashboard: App.filteredData\<close>

text \<open>
  \<^verbatim>\<open>selectedCategory\<close> and \<^verbatim>\<open>selectedType\<close> are \<^verbatim>\<open>Category | null\<close> and
  \<^verbatim>\<open>ConfidenceType | null\<close>; the collection is the imported JSON.
\<close>

definition entry_matches :: "Category option \<Rightarrow> ConfidenceType option \<Rightarrow> ConfidenceEntry \<Rightarrow> bool" where
  "entry_matches selectedCategory selectedType entry =
     (let categoryMatch = (selectedCategory = None \<or> Some (category entry) = selectedCategory);
          typeMatch = (selectedType = None \<or> Some (confidence_type entry) = selectedType)
      in categoryMatch \<and> typeMatch)"

text \<open>The day record the memo builds from a non-empty list of filtered entries.\<close>

definition App_day :: "ConfidenceEntry list \<Rightarrow> DailyData" where
  "App_day filteredEntries =
     (let powerLevels = map power_level filteredEntries;
          avg = js_div (Fin (foldl (+) 0 powerLevels)) (Fin (real (length powerLevels)));
          personalCount = length (filter (\<lambda>e. confidence_type e = Personal) filteredEntries)
      in \<lparr> entries = filteredEntries,
           daily_confidence_average = avg,
           dominant_confidence_area =
             (if real personalCount > real (length filteredEntries) / 2
              then Personal else Professional) \<rparr>)"

definition App_step ::
  "Category option \<Rightarrow> ConfidenceType option \<Rightarrow> ConfidenceData \<Rightarrow> string \<times> DailyData \<Rightarrow> ConfidenceData" where
  "App_step selectedCategory selectedType filtered kv =
     (case kv of (date, dayData) \<Rightarrow>
        (let filteredEntries = filter (entry_matches selectedCategory selectedType) (entries dayData)
         in if length filteredEntries > 0
            then obj_set date (App_day filteredEntries) filtered
            else filtered))"

definition App_filteredData ::
  "Category option \<Rightarrow> ConfidenceType option \<Rightarrow> ConfidenceData \<Rightarrow> ConfidenceData" where
  "App_filteredData selectedCategory selectedType confidenceData =
     (if selectedCategory = None \<and> selectedType = None then confidenceData
      else foldl (App_step selectedCategory selectedType) [] confidenceData)"

section \<open>utils/dataProcessing: getOverallStats\<close>

record OverallStats =
  totalDays :: nat
  totalEntries :: nat
  avgConfidence :: jsnum
  highestConfidence :: jsnum
  lowestConfidence :: jsnum
  personalPercentage :: jsnum
  professionalPercentage :: jsnum

definition getOverallStats :: "ConfidenceData \<Rightarrow> OverallStats" where
  "getOverallStats dat =
     (let allEntries = concat (map entries (Object_values dat));
          allPowerLevels = map power_level allEntries;
          personalEntries = filter (\<lambda>e. confidence_type e = Personal) allEntries;
          professionalEntries = filter (\<lambda>e. confidence_type e = Professional) allEntries
      in \<lparr> totalDays = length (Object_keys dat),
           totalEntries = length allEntries,
           avgConfidence =
             js_div (Fin (foldl (+) 0 allPowerLevels)) (Fin (real (length allPowerLevels))),
           highestConfidence = Math_max allPowerLevels,
           lowestConfidence = Math_min allPowerLevels,
           personalPercentage =
             js_times (js_div (Fin (real (length personalEntries))) (Fin (real (length allEntries))))
               (Fin 100),
           professionalPercentage =
             js_times (js_div (Fin (real (length professionalEntries))) (Fin (real (length allEntries))))
               (Fin 100) \<rparr>)"

section \<open>utils/dataProcessing: calculateCategoryStats\<close>

text \<open>
  \<^verbatim>\<open>categoryMap\<close> is a \<^verbatim>\<open>Map\<close> from a category to \<^verbatim>\<open>{ total, count }\<close>, here a
  pair; a \<^verbatim>\<open>Map\<close> iterates in insertion order and \<^verbatim>\<open>set\<close> on a key it has
  keeps the key's place. The loop state is the map and \<^verbatim>\<open>totalEntries\<close>. The two
  counters are natural numbers: a double counts exactly up to \<open>2 ^ 53\<close>. The totals,
  the averages and the percentages are doubles, each operation rounding its result.
\<close>

definition category_entry ::
  "(Category \<times> jsnum \<times> nat) list \<times> nat \<Rightarrow> ConfidenceEntry \<Rightarrow> (Category \<times> jsnum \<times> nat) list \<times> nat" where
  "category_entry st entry =
     (case st of (categoryMap, n) \<Rightarrow>
        (let current = (case map_of categoryMap (category entry) of
                          None \<Rightarrow> (Fin 0, 0) | Some c \<Rightarrow> c)
         in (obj_set (category entry)
               (js_plus64 (fst current) (Fin (power_level entry)), snd current + 1) categoryMap,
             n + 1)))"

text \<open>The field \<^verbatim>\<open>category\<close> of the statistics is \<open>stats_category\<close> here.\<close>

record CategoryStats =
  stats_category :: Category
  avgPowerLevel :: jsnum
  entryCount :: nat
  percentage :: jsnum

definition category_stats :: "nat \<Rightarrow> Category \<times> jsnum \<times> nat \<Rightarrow> CategoryStats" where
  "category_stats n kv =
     (case kv of (cat, tot, cnt) \<Rightarrow>
        \<lparr> stats_category = cat,
          avgPowerLevel = js_div64 tot (Fin (real cnt)),
          entryCount = cnt,
          percentage = js_times64 (js_div64 (Fin (real cnt)) (Fin (real n))) (Fin 100) \<rparr>)"

text \<open>
  The comparison function subtracts two averages. The difference of two doubles rounds
  to a double of the same sign, so the exact difference orders them as the code does.
\<close>

definition by_avg_desc :: "CategoryStats \<Rightarrow> CategoryStats \<Rightarrow> jsnum" where
  "by_avg_desc a b = js_minus (avgPowerLevel b) (avgPowerLevel a)"

definition calculateCategoryStats :: "ConfidenceData \<Rightarrow> CategoryStats list" where
  "calculateCategoryStats dat =
     (case foldl (\<lambda>st day. foldl category_entry st (entries day)) ([], 0) (Object_values dat) of
        (categoryMap, n) \<Rightarrow> js_sort by_avg_desc (map (category_stats n) categoryMap))"

section \<open>utils/dataProcessing: getPowerLevelDistribution\<close>

text \<open>
  An array is a list of cells, a cell being a number or a hole. \<^verbatim>\<open>a[x]++\<close> with a
  key \<open>x\<close> that is no array index (negative, fractional or too large) writes a plain
  property and leaves the elements alone; with an index inside the array it adds one to
  the cell; with an index beyond the array it extends the array with holes and stores
  \<^verbatim>\<open>undefined + 1\<close>, which is not-a-number.
\<close>

definition array_index :: "real \<Rightarrow> nat option" where
  "array_index x =
     (if 0 \<le> x \<and> x < 4294967295 \<and> of_int \<lfloor>x\<rfloor> = x then Some (nat \<lfloor>x\<rfloor>) else None)"

definition js_incr :: "jsnum option \<Rightarrow> jsnum" where
  "js_incr cell = (case cell of None \<Rightarrow> NaN | Some v \<Rightarrow> js_plus v (Fin 1))"

definition array_incr :: "jsnum option list \<Rightarrow> real \<Rightarrow> jsnum option list" where
  "array_incr arr x =
     (case array_index x of
        None \<Rightarrow> arr
      | Some i \<Rightarrow>
          if i < length arr then arr[i := Some (js_incr (arr ! i))]
          else arr @ replicate (i - length arr) None @ [Some NaN])"

record Bucket =
  level :: nat
  count :: jsnum

text \<open>\<^verbatim>\<open>Array.prototype.map\<close> skips the holes and keeps them in its result.\<close>

definition getPowerLevelDistribution :: "ConfidenceData \<Rightarrow> Bucket option list" where
  "getPowerLevelDistribution dat =
     (let distribution =
            foldl (\<lambda>dist day. foldl (\<lambda>dist entry. array_incr dist (power_level entry - 1)) dist (entries day))
              (replicate 10 (Some (Fin 0))) (Object_values dat)
      in map (\<lambda>(index, cell). map_option (\<lambda>c. \<lparr> level = index + 1, count = c \<rparr>) cell)
           (enumerate 0 distribution))"

section \<open>The plain JavaScript dashboard: class ConfidenceVisualizer\<close>

text \<open>
  The fields of the visualizer that the filter and the statistics read and write: the
  loaded collection \<^verbatim>\<open>this.data\<close> and the filtered view \<^verbatim>\<open>this.filteredData\<close>.
\<close>

record Visualizer =
  data :: ConfidenceData
  filteredData :: ConfidenceData

subsection \<open>getDominantType\<close>

text \<open>
  \<^verbatim>\<open>counts\<close> is an object keyed by the type; \<^verbatim>\<open>(counts[t] || 0) + 1\<close> reads a
  missing key as zero. The pairs of \<^verbatim>\<open>Object.entries(counts)\<close> are sorted by
  descending count and the key of the first pair is returned, or \<^verbatim>\<open>'personal'\<close>
  when there is no pair.
\<close>

definition count_type :: "(ConfidenceType \<times> nat) list \<Rightarrow> ConfidenceEntry \<Rightarrow> (ConfidenceType \<times> nat) list" where
  "count_type counts entry =
     obj_set (confidence_type entry)
       ((case map_of counts (confidence_type entry) of None \<Rightarrow> 0 | Some c \<Rightarrow> c) + 1) counts"

definition by_count_desc :: "ConfidenceType \<times> nat \<Rightarrow> ConfidenceType \<times> nat \<Rightarrow> jsnum" where
  "by_count_desc a b = js_minus (Fin (real (snd b))) (Fin (real (snd a)))"

definition getDominantType :: "ConfidenceEntry list \<Rightarrow> ConfidenceType" where
  "getDominantType es =
     (case js_sort by_count_desc (foldl count_type [] es) of
        [] \<Rightarrow> Personal
      | (t, c) # rest \<Rightarrow> t)"

subsection \<open>applyFilters\<close>

text \<open>
  The three controls: the values of the type and category selects (\<^verbatim>\<open>'all'\<close> or a
  name) and \<^verbatim>\<open>parseInt\<close> of the power slider, which is a number or not-a-number.
\<close>

definition applyFilters_keep :: "string \<Rightarrow> string \<Rightarrow> jsnum \<Rightarrow> ConfidenceEntry \<Rightarrow> bool" where
  "applyFilters_keep typeFilter categoryFilter powerFilter entry =
     (if typeFilter \<noteq> ''all'' \<and> type_name (confidence_type entry) \<noteq> typeFilter then False
      else if categoryFilter \<noteq> ''all'' \<and> category_name (category entry) \<noteq> categoryFilter then False
      else if js_lt (Fin (power_level entry)) powerFilter then False
      else True)"

definition Visualizer_day :: "ConfidenceEntry list \<Rightarrow> DailyData" where
  "Visualizer_day filteredEntries =
     \<lparr> entries = filteredEntries,
       daily_confidence_average =
         js_div (Fin (foldl (\<lambda>sum e. sum + power_level e) 0 filteredEntries))
           (Fin (real (length filteredEntries))),
       dominant_confidence_area = getDominantType filteredEntries \<rparr>"

definition applyFilters_step ::
  "string \<Rightarrow> string \<Rightarrow> jsnum \<Rightarrow> ConfidenceData \<Rightarrow> string \<times> DailyData \<Rightarrow> ConfidenceData" where
  "applyFilters_step typeFilter categoryFilter powerFilter filtered kv =
     (case kv of (date, dayData) \<Rightarrow>
        (let filteredEntries =
               filter (applyFilters_keep typeFilter categoryFilter powerFilter) (entries dayData)
         in if length filteredEntries > 0
            then obj_set date (Visualizer_day filteredEntries) filtered
            else filtered))"

text \<open>
  The collection that \<^verbatim>\<open>applyFilters\<close> stores in \<^verbatim>\<open>this.filteredData\<close>,
  starting from the empty object. \<^verbatim>\<open>updateUI\<close>, called last, redraws the page from
  the two fields and assigns neither.
\<close>

definition applyFilters_view :: "string \<Rightarrow> string \<Rightarrow> jsnum \<Rightarrow> ConfidenceData \<Rightarrow> ConfidenceData" where
  "applyFilters_view typeFilter categoryFilter powerFilter dat =
     foldl (applyFilters_step typeFilter categoryFilter powerFilter) [] dat"

definition applyFilters :: "string \<Rightarrow> string \<Rightarrow> jsnum \<Rightarrow> Visualizer \<Rightarrow> Visualizer" where
  "applyFilters typeFilter categoryFilter powerFilter vis =
     vis \<lparr> filteredData := applyFilters_view typeFilter categoryFilter powerFilter (data vis) \<rparr>"

subsection \<open>calculateStats\<close>

text \<open>
  The object it returns; \<^verbatim>\<open>avgConfidence\<close> and \<^verbatim>\<open>totalEntries\<close> carry the prefix
  \<open>vis\<close> here, apart from the fields of \<^verbatim>\<open>getOverallStats\<close>.
\<close>

record VisualizerStats =
  vis_avgConfidence :: jsnum
  vis_totalEntries :: nat
  peakDay :: string
  peakScore :: jsnum

text \<open>
  The loop state is \<open>(totalPower, totalEntries, peakDay, peakScore)\<close>, written
  \<open>(tp, te, pd, ps)\<close> below.
\<close>

definition calculateStats_day ::
  "real \<times> nat \<times> string \<times> jsnum \<Rightarrow> string \<times> DailyData \<Rightarrow> real \<times> nat \<times> string \<times> jsnum" where
  "calculateStats_day st kv =
     (case (st, kv) of ((tp, te, pd, ps), (date, dayData)) \<Rightarrow>
        (case foldl (\<lambda>(tp, te) entry. (tp + power_level entry, te + 1)) (tp, te) (entries dayData) of
           (tp', te') \<Rightarrow>
             if js_gt (daily_confidence_average dayData) ps
             then (tp', te', date, daily_confidence_average dayData)
             else (tp', te', pd, ps)))"

definition calculateStats :: "Visualizer \<Rightarrow> VisualizerStats" where
  "calculateStats vis =
     (case foldl calculateStats_day (0, 0, [], Fin 0) (filteredData vis) of
        (tp, te, pd, ps) \<Rightarrow>
          \<lparr> vis_avgConfidence = (if te > 0 then js_div (Fin tp) (Fin (real te)) else Fin 0),
            vis_totalEntries = te,
            peakDay = pd,
            peakScore = ps \<rparr>)"

subsection \<open>calculateGrowthTrend and getAverageForDates\<close>

text \<open>
  \<^verbatim>\<open>xs.slice(start, end)\<close>: a negative index counts from the end, and both are
  clamped to the array. \<^verbatim>\<open>xs.slice(start)\<close> runs to the end of the array.
\<close>

definition slice_index :: "nat \<Rightarrow> int \<Rightarrow> nat" where
  "slice_index len i = (if i < 0 then nat (max (int len + i) 0) else min (nat i) len)"

definition js_slice :: "int \<Rightarrow> int \<Rightarrow> 'a list \<Rightarrow> 'a list" where
  "js_slice start final xs =
     (let k = slice_index (length xs) start; e = slice_index (length xs) final
      in take (e - k) (drop k xs))"

definition js_slice_from :: "int \<Rightarrow> 'a list \<Rightarrow> 'a list" where
  "js_slice_from start xs = drop (slice_index (length xs) start) xs"

text \<open>
  \<^verbatim>\<open>this.data[date]\<close> is a lookup by key; a date that is no key is skipped. The
  loop state \<open>(tot, cnt)\<close> is the pair of \<^verbatim>\<open>total\<close> and \<^verbatim>\<open>count\<close>.
\<close>

definition getAverageForDates :: "Visualizer \<Rightarrow> string list \<Rightarrow> jsnum" where
  "getAverageForDates vis dates =
     (case foldl (\<lambda>(tot, cnt) date.
               (case map_of (data vis) date of
                  None \<Rightarrow> (tot, cnt)
                | Some dayData \<Rightarrow>
                    foldl (\<lambda>(tot, cnt) entry. (tot + power_level entry, cnt + 1))
                      (tot, cnt) (entries dayData)))
             (0, 0 :: nat) dates of
        (tot, cnt) \<Rightarrow>
          if cnt > 0 then js_div (Fin tot) (Fin (real cnt)) else Fin 0)"

text \<open>
  \<^verbatim>\<open>Object.keys(this.data).sort()\<close> sorts the date strings by their characters.
  \<^verbatim>\<open>-Math.floor(n / 3)\<close> is zero when \<open>n < 3\<close>, and \<^verbatim>\<open>slice(-0)\<close> is
  \<^verbatim>\<open>slice(0)\<close>.
\<close>

definition calculateGrowthTrend :: "Visualizer \<Rightarrow> jsnum" where
  "calculateGrowthTrend vis =
     (let dates = sort (Object_keys (data vis))
      in if length dates < 2 then Fin 0
         else
           (let firstMonth = js_slice 0 \<lfloor>real (length dates) / 3\<rfloor> dates;
                lastMonth = js_slice_from (- \<lfloor>real (length dates) / 3\<rfloor>) dates;
                firstAvg = getAverageForDates vis firstMonth;
                lastAvg = getAverageForDates vis lastMonth
            in if js_eq firstAvg (Fin 0) then Fin 0
               else js_times (js_div (js_minus lastAvg firstAvg) firstAvg) (Fin 100)))"

section \<open>The specification's wording, for comparison\<close>

text \<open>
  The growth trend as the specification words it: the dates in order, the first and the
  last \<open>n div 3\<close> of them, the mean power level of all entries of each part (zero when
  a part has no entry), and the relative change in percent; zero with fewer than two
  dates or an early mean of zero.
\<close>

definition all_entries :: "ConfidenceData \<Rightarrow> ConfidenceEntry list" where
  "all_entries dat = concat (map (\<lambda>kv. entries (snd kv)) dat)"




section \<open>Auxiliary notions\<close>

text \<open>
  Both filter loops have one shape: keep the entries of each day that satisfy a
  predicate, and store a rebuilt day under the date when some entry is kept.
\<close>

definition day_step ::
  "(ConfidenceEntry \<Rightarrow> bool) \<Rightarrow> (ConfidenceEntry list \<Rightarrow> DailyData) \<Rightarrow>
   ConfidenceData \<Rightarrow> string \<times> DailyData \<Rightarrow> ConfidenceData" where
  "day_step P mk acc kv =
     (if filter P (entries (snd kv)) = [] then acc
      else obj_set (fst kv) (mk (filter P (entries (snd kv)))) acc)"


text \<open>The number of entries of a type, and of a power level.\<close>

definition type_count :: "ConfidenceType \<Rightarrow> ConfidenceEntry list \<Rightarrow> nat" where
  "type_count t es = length (filter (\<lambda>e. confidence_type e = t) es)"

definition level_count :: "nat \<Rightarrow> ConfidenceEntry list \<Rightarrow> nat" where
  "level_count l es = length (filter (\<lambda>e. power_level e = real l) es)"

text \<open>The buckets of a histogram that are no holes, and the value of a finite number.\<close>

fun present :: "'a option list \<Rightarrow> 'a list" where
  "present [] = []"
| "present (None # xs) = present xs"
| "present (Some x # xs) = x # present xs"

fun fin_value :: "jsnum \<Rightarrow> real" where
  "fin_value (Fin r) = r"
| "fin_value NaN = 0"
| "fin_value PosInf = 0"
| "fin_value NegInf = 0"

section \<open>A sample collection\<close>

text \<open>Three days, stored out of date order; the first holds one entry of each type.\<close>

definition sample_data :: ConfidenceData where
  "sample_data =
     [(''2025-01-03'',
       \<lparr> entries =
           [\<lparr> entry_text = ''gave the demo'', category = Technical_skills,
               confidence_type = Professional, power_level = 6 \<rparr>,
            \<lparr> entry_text = ''ran ten miles'', category = Physical_wellness,
               confidence_type = Personal, power_level = 8 \<rparr>],
         daily_confidence_average = Fin 7,
         dominant_confidence_area = Professional \<rparr>),
      (''2025-01-01'',
       \<lparr> entries =
           [\<lparr> entry_text = ''spoke up'', category = Self_image,
               confidence_type = Personal, power_level = 4 \<rparr>],
         daily_confidence_average = Fin 4,
         dominant_confidence_area = Personal \<rparr>),
      (''2025-01-02'',
       \<lparr> entries =
           [\<lparr> entry_text = ''fixed the build'', category = Technical_skills,
               confidence_type = Professional, power_level = 5 \<rparr>],
         daily_confidence_average = Fin 5,
         dominant_confidence_area = Professional \<rparr>)]"

text \<open>A day of two entries, one of each type, the personal one first.\<close>

definition tied_day :: "ConfidenceEntry list" where
  "tied_day =
     [\<lparr> entry_text = ''ran ten miles'', category = Physical_wellness,
         confidence_type = Personal, power_level = 8 \<rparr>,
      \<lparr> entry_text = ''gave the demo'', category = Technical_skills,
         confidence_type = Professional, power_level = 4 \<rparr>]"

text \<open>A day of three entries in three categories.\<close>

definition thirds_data :: ConfidenceData where
  "thirds_data =
     [(''2025-01-01'',
       \<lparr> entries =
           [\<lparr> entry_text = ''ran ten miles'', category = Physical_wellness,
               confidence_type = Personal, power_level = 8 \<rparr>,
            \<lparr> entry_text = ''gave the demo'', category = Technical_skills,
               confidence_type = Professional, power_level = 6 \<rparr>,
            \<lparr> entry_text = ''spoke up'', category = Self_image,
               confidence_type = Personal, power_level = 4 \<rparr>],
         daily_confidence_average = Fin 6,
         dominant_confidence_area = Personal \<rparr>)]"

section \<open>Properties\<close>

subsection \<open>Objects and sums\<close>

lemma set_obj_set: "set (obj_set k v xs) \<subseteq> insert (k, v) (set xs)"
  by (induction xs) (auto split: if_splits)

lemma keys_obj_set: "fst ` set (obj_set k v xs) = insert k (fst ` set xs)"
  by (induction k v xs rule: obj_set.induct) (simp_all add: insert_commute)

lemma obj_set_fresh: "k \<notin> fst ` set xs \<Longrightarrow> obj_set k v xs = xs @ [(k, v)]"
  by (induction xs) auto

lemma distinct_obj_set: "distinct (map fst xs) \<Longrightarrow> distinct (map fst (obj_set k v xs))"
  by (induction xs) (auto simp: keys_obj_set)

lemma map_of_obj_set: "map_of (obj_set k v xs) = (map_of xs)(k \<mapsto> v)"
  by (induction xs) (auto simp: fun_eq_iff)



subsection \<open>The two filters\<close>

lemma App_step_day_step: "App_step sc st = day_step (entry_matches sc st) App_day"
  by (auto simp: App_step_def day_step_def fun_eq_iff Let_def)

lemma applyFilters_step_day_step:
  "applyFilters_step tf cf pf = day_step (applyFilters_keep tf cf pf) Visualizer_day"
  by (auto simp: applyFilters_step_def day_step_def fun_eq_iff Let_def)

lemma entries_App_day: "entries (App_day fe) = fe"
  by (simp add: App_day_def Let_def)

lemma entries_Visualizer_day: "entries (Visualizer_day fe) = fe"
  by (simp add: Visualizer_day_def)



lemma day_fold_keys:
  "fst ` set (foldl (day_step P mk) acc xs) \<subseteq> fst ` set acc \<union> fst ` set xs"
proof (induction xs arbitrary: acc)
  case Nil
  show ?case by simp
next
  case (Cons kv xs)
  have "fst ` set (day_step P mk acc kv) \<subseteq> insert (fst kv) (fst ` set acc)"
    by (auto simp: day_step_def keys_obj_set)
  with Cons [of "day_step P mk acc kv"] show ?case by auto
qed

lemma day_fold_inv:
  assumes "\<And>k v. (k, v) \<in> set acc \<Longrightarrow> R k v"
    and "\<And>k d. (k, d) \<in> set xs \<Longrightarrow> filter P (entries d) \<noteq> [] \<Longrightarrow> R k (mk (filter P (entries d)))"
    and "(k, v) \<in> set (foldl (day_step P mk) acc xs)"
  shows "R k v"
  using assms
proof (induction xs arbitrary: acc)
  case Nil
  then show ?case by simp
next
  case (Cons kv xs)
  have step: "R k' v'" if "(k', v') \<in> set (day_step P mk acc kv)" for k' v'
  proof (cases "filter P (entries (snd kv)) = []")
    case True
    with that Cons.prems(1) show ?thesis by (simp add: day_step_def)
  next
    case False
    with that have "(k', v') \<in> insert (fst kv, mk (filter P (entries (snd kv)))) (set acc)"
      using set_obj_set by (fastforce simp: day_step_def)
    then show ?thesis
    proof
      assume "(k', v') = (fst kv, mk (filter P (entries (snd kv))))"
      moreover have "R (fst kv) (mk (filter P (entries (snd kv))))"
        using Cons.prems(2) [of "fst kv" "snd kv"] False by simp
      ultimately show ?thesis by simp
    next
      assume "(k', v') \<in> set acc"
      then show ?thesis by (rule Cons.prems(1))
    qed
  qed
  show ?case
  proof (rule Cons.IH [of "day_step P mk acc kv"])
    show "R k' v'" if "(k', v') \<in> set (day_step P mk acc kv)" for k' v'
      using that by (rule step)
    show "R k' (mk (filter P (entries d)))"
      if "(k', d) \<in> set xs" "filter P (entries d) \<noteq> []" for k' d
      using that Cons.prems(2) by simp
    show "(k, v) \<in> set (foldl (day_step P mk) (day_step P mk acc kv) xs)"
      using Cons.prems(3) by simp
  qed
qed

lemma day_fold_distinct:
  "distinct (map fst acc) \<Longrightarrow> distinct (map fst (foldl (day_step P mk) acc xs))"
  by (induction xs arbitrary: acc) (simp_all add: day_step_def distinct_obj_set)

lemma day_fold_fixed:
  assumes "distinct (map fst xs)"
    and "fst ` set xs \<inter> fst ` set acc = {}"
    and "\<And>k v. (k, v) \<in> set xs \<Longrightarrow> filter P (entries v) \<noteq> [] \<and> mk (filter P (entries v)) = v"
  shows "foldl (day_step P mk) acc xs = acc @ xs"
  using assms
proof (induction xs arbitrary: acc)
  case Nil
  then show ?case by simp
next
  case (Cons kv xs)
  have kv: "filter P (entries (snd kv)) \<noteq> [] \<and> mk (filter P (entries (snd kv))) = snd kv"
    using Cons.prems(3) [of "fst kv" "snd kv"] by simp
  have fresh: "fst kv \<notin> fst ` set acc"
    using Cons.prems(2) by auto
  have step: "day_step P mk acc kv = acc @ [kv]"
    using kv fresh by (simp add: day_step_def obj_set_fresh)
  have "foldl (day_step P mk) (acc @ [kv]) xs = (acc @ [kv]) @ xs"
  proof (rule Cons.IH)
    show "distinct (map fst xs)" using Cons.prems(1) by simp
    show "fst ` set xs \<inter> fst ` set (acc @ [kv]) = {}"
      using Cons.prems(1,2) by auto
    show "filter P (entries v) \<noteq> [] \<and> mk (filter P (entries v)) = v" if "(k, v) \<in> set xs" for k v
      using that Cons.prems(3) [of k v] by simp
  qed
  with step show ?case by simp
qed

lemma day_fold_idem:
  assumes mk: "\<And>fe. entries (mk fe) = fe"
  shows "foldl (day_step P mk) [] (foldl (day_step P mk) [] xs) = foldl (day_step P mk) [] xs"
proof -
  let ?r = "foldl (day_step P mk) [] xs"
  have "foldl (day_step P mk) [] ?r = [] @ ?r"
  proof (rule day_fold_fixed)
    show "distinct (map fst ?r)" by (rule day_fold_distinct) simp
    show "fst ` set ?r \<inter> fst ` set [] = {}" by simp
    show "filter P (entries v) \<noteq> [] \<and> mk (filter P (entries v)) = v" if "(k, v) \<in> set ?r" for k v
    proof (rule day_fold_inv [where R = "\<lambda>k v. filter P (entries v) \<noteq> [] \<and> mk (filter P (entries v)) = v", OF _ _ that])
      show "filter P (entries v) \<noteq> [] \<and> mk (filter P (entries v)) = v" if "(k, v) \<in> set []" for k v
        using that by simp
      show "filter P (entries (mk (filter P (entries d)))) \<noteq> [] \<and>
            mk (filter P (entries (mk (filter P (entries d))))) = mk (filter P (entries d))"
        if "filter P (entries d) \<noteq> []" for k d
        using that by (simp add: mk)
    qed
  qed
  then show ?thesis by simp
qed

lemma day_fold_source:
  assumes mk: "\<And>fe. entries (mk fe) = fe"
    and "(k, v) \<in> set (foldl (day_step P mk) [] dat)"
  shows "\<exists>d. (k, d) \<in> set dat \<and> filter P (entries d) \<noteq> [] \<and> v = mk (filter P (entries d))"
proof (rule day_fold_inv [where R = "\<lambda>k v. \<exists>d. (k, d) \<in> set dat \<and> filter P (entries d) \<noteq> [] \<and> v = mk (filter P (entries d))", OF _ _ assms(2)])
  show "\<exists>d. (k, d) \<in> set dat \<and> filter P (entries d) \<noteq> [] \<and> v = mk (filter P (entries d))"
    if "(k, v) \<in> set []" for k v
    using that by simp
  show "\<exists>d'. (k, d') \<in> set dat \<and> filter P (entries d') \<noteq> [] \<and>
          mk (filter P (entries d)) = mk (filter P (entries d'))"
    if "(k, d) \<in> set dat" "filter P (entries d) \<noteq> []" for k d
    using that by blast
qed

lemma applyFilters_view_source:
  assumes "(k, v) \<in> set (applyFilters_view tf cf pf dat)"
  shows "\<exists>d. (k, d) \<in> set dat \<and> filter (applyFilters_keep tf cf pf) (entries d) \<noteq> [] \<and>
           v = Visualizer_day (filter (applyFilters_keep tf cf pf) (entries d))"
  using assms day_fold_source [of Visualizer_day k v "applyFilters_keep tf cf pf" dat]
  by (simp add: applyFilters_view_def applyFilters_step_day_step entries_Visualizer_day)

lemma App_filteredData_source:
  assumes "sc \<noteq> None \<or> st \<noteq> None" and "(k, v) \<in> set (App_filteredData sc st dat)"
  shows "\<exists>d. (k, d) \<in> set dat \<and> filter (entry_matches sc st) (entries d) \<noteq> [] \<and>
           v = App_day (filter (entry_matches sc st) (entries d))"
  using assms day_fold_source [of App_day k v "entry_matches sc st" dat]
  by (auto simp: App_filteredData_def App_step_day_step entries_App_day)

text \<open>
  C2, as amended. The view of \<^verbatim>\<open>applyFilters\<close> holds only dates of the source, and each
  of its days has a non-empty entry list, the kept entries of a source day of that date.
  The memo of the React dashboard holds only dates of the source as well; when a category
  or a type is selected, each of its days has a non-empty entry list, the matching
  entries of a source day of that date. With nothing selected the memo is the source as
  it is, empty days included.
\<close>

theorem filter_keys_and_days:
  "fst ` set (applyFilters_view tf cf pf dat) \<subseteq> fst ` set dat
   \<and> (\<forall>(k, v) \<in> set (applyFilters_view tf cf pf dat).
         entries v \<noteq> [] \<and>
         (\<exists>d. (k, d) \<in> set dat \<and> entries v = filter (applyFilters_keep tf cf pf) (entries d)))
   \<and> fst ` set (App_filteredData sc st dat) \<subseteq> fst ` set dat
   \<and> (sc \<noteq> None \<or> st \<noteq> None \<longrightarrow>
        (\<forall>(k, v) \<in> set (App_filteredData sc st dat).
           entries v \<noteq> [] \<and>
           (\<exists>d. (k, d) \<in> set dat \<and> entries v = filter (entry_matches sc st) (entries d))))"
proof (intro conjI impI ballI)
  show "fst ` set (applyFilters_view tf cf pf dat) \<subseteq> fst ` set dat"
    using day_fold_keys [of "applyFilters_keep tf cf pf" Visualizer_day "[]" dat]
    by (simp add: applyFilters_view_def applyFilters_step_day_step)
  show "fst ` set (App_filteredData sc st dat) \<subseteq> fst ` set dat"
    using day_fold_keys [of "entry_matches sc st" App_day "[]" dat]
    by (simp add: App_filteredData_def App_step_day_step)
next
  fix x assume "x \<in> set (applyFilters_view tf cf pf dat)"
  then have "(fst x, snd x) \<in> set (applyFilters_view tf cf pf dat)" by simp
  from applyFilters_view_source [OF this]
  show "case x of (k, v) \<Rightarrow> entries v \<noteq> [] \<and>
         (\<exists>d. (k, d) \<in> set dat \<and> entries v = filter (applyFilters_keep tf cf pf) (entries d))"
    by (auto simp: entries_Visualizer_day split: prod.splits)
next
  fix x assume "sc \<noteq> None \<or> st \<noteq> None" and "x \<in> set (App_filteredData sc st dat)"
  then have "\<exists>d. (fst x, d) \<in> set dat \<and> filter (entry_matches sc st) (entries d) \<noteq> [] \<and>
           snd x = App_day (filter (entry_matches sc st) (entries d))"
    using App_filteredData_source [of sc st "fst x" "snd x" dat] by simp
  then show "case x of (k, v) \<Rightarrow> entries v \<noteq> [] \<and>
         (\<exists>d. (k, d) \<in> set dat \<and> entries v = filter (entry_matches sc st) (entries d))"
    by (auto simp: entries_App_day split: prod.splits)
qed

text \<open>
  C5. Filtering a filtered collection again with the same selection gives the same
  collection: the same dates in the same order, with the same day records. This holds
  for the memo of the React dashboard and for the view of \<^verbatim>\<open>applyFilters\<close>;
  running \<^verbatim>\<open>applyFilters\<close> twice with the same controls leaves the visualizer as
  one run does.
\<close>

theorem filter_idempotent:
  "App_filteredData sc st (App_filteredData sc st dat) = App_filteredData sc st dat
   \<and> applyFilters_view tf cf pf (applyFilters_view tf cf pf dat) = applyFilters_view tf cf pf dat
   \<and> applyFilters tf cf pf (applyFilters tf cf pf vis) = applyFilters tf cf pf vis"
proof (intro conjI)
  show "App_filteredData sc st (App_filteredData sc st dat) = App_filteredData sc st dat"
    using day_fold_idem [of App_day "entry_matches sc st" dat]
    by (simp add: App_filteredData_def App_step_day_step entries_App_day)
  show "applyFilters_view tf cf pf (applyFilters_view tf cf pf dat) = applyFilters_view tf cf pf dat"
    using day_fold_idem [of Visualizer_day "applyFilters_keep tf cf pf" dat]
    by (simp add: applyFilters_view_def applyFilters_step_day_step entries_Visualizer_day)
  show "applyFilters tf cf pf (applyFilters tf cf pf vis) = applyFilters tf cf pf vis"
    by (simp add: applyFilters_def)
qed



text \<open>The amended C2 on the sample collection, filtered by the personal type.\<close>

theorem filter_keys_and_days_witness:
  "fst ` set (applyFilters_view ''personal'' ''all'' (Fin 1) sample_data) \<subseteq> fst ` set sample_data
   \<and> list_all (\<lambda>(k, v). entries v \<noteq> []) (applyFilters_view ''personal'' ''all'' (Fin 1) sample_data)
   \<and> map fst (applyFilters_view ''personal'' ''all'' (Fin 1) sample_data) = [''2025-01-03'', ''2025-01-01'']
   \<and> Some Personal \<noteq> (None :: ConfidenceType option)
   \<and> fst ` set (App_filteredData None (Some Personal) sample_data) \<subseteq> fst ` set sample_data
   \<and> list_all (\<lambda>(k, v). entries v \<noteq> []) (App_filteredData None (Some Personal) sample_data)
   \<and> map fst (App_filteredData None (Some Personal) sample_data) = [''2025-01-03'', ''2025-01-01'']"
  using filter_keys_and_days [of "''personal''" "''all''" "Fin 1" sample_data None "Some Personal"]
  by (simp add: list_all_iff sample_data_def applyFilters_view_def applyFilters_step_def
      applyFilters_keep_def App_filteredData_def App_step_def entry_matches_def)

text \<open>
  C2 as stated fails: with nothing selected, a source day without entries is a day of
  the memo.
\<close>

theorem filter_keys_and_days_counterexample:
  "App_filteredData None None
     [(''2025-01-01'', \<lparr> entries = [], daily_confidence_average = Fin 0,
                          dominant_confidence_area = Personal \<rparr>)]
   = [(''2025-01-01'', \<lparr> entries = [], daily_confidence_average = Fin 0,
                          dominant_confidence_area = Personal \<rparr>)]
   \<and> entries (snd (hd (App_filteredData None None
        [(''2025-01-01'', \<lparr> entries = [], daily_confidence_average = Fin 0,
                             dominant_confidence_area = Personal \<rparr>)]))) = []"
  by (simp add: App_filteredData_def)

text \<open>C5 on the sample collection.\<close>

theorem filter_idempotent_witness:
  "App_filteredData None (Some Personal) (App_filteredData None (Some Personal) sample_data)
     = App_filteredData None (Some Personal) sample_data
   \<and> applyFilters_view ''all'' ''technical_skills'' (Fin 6)
       (applyFilters_view ''all'' ''technical_skills'' (Fin 6) sample_data)
     = applyFilters_view ''all'' ''technical_skills'' (Fin 6) sample_data
   \<and> map fst (applyFilters_view ''all'' ''technical_skills'' (Fin 6) sample_data) = [''2025-01-03'']"
  using filter_idempotent [of None "Some Personal" sample_data "''all''" "''technical_skills''" "Fin 6"]
  by (simp add: sample_data_def applyFilters_view_def applyFilters_step_def applyFilters_keep_def)





subsection \<open>The growth trend\<close>









text \<open>
  C9. \<^verbatim>\<open>applyFilters\<close> leaves \<^verbatim>\<open>this.data\<close> as it is and stores the filtered view
  in \<^verbatim>\<open>this.filteredData\<close>. The growth trend reads \<^verbatim>\<open>this.data\<close> only, so it is
  the trend of the unfiltered collection; \<^verbatim>\<open>calculateStats\<close> reads the filtered view.
\<close>

theorem applyFilters_keeps_source:
  "data (applyFilters tf cf pf vis) = data vis
   \<and> calculateGrowthTrend (applyFilters tf cf pf vis) = calculateGrowthTrend vis
   \<and> filteredData (applyFilters tf cf pf vis) = applyFilters_view tf cf pf (data vis)
   \<and> calculateStats (applyFilters tf cf pf vis) =
       calculateStats (vis \<lparr> filteredData := applyFilters_view tf cf pf (data vis) \<rparr>)"
  by (simp add: applyFilters_def calculateGrowthTrend_def getAverageForDates_def Let_def)

text \<open>
  The sample collection as loaded and after a filter by the professional type. The
  filtered view alone has two dates and a trend of zero.
\<close>

lemma sample_trend: "calculateGrowthTrend \<lparr> data = sample_data, filteredData = sample_data \<rparr> = Fin 75"
  by code_simp

lemma sample_stats:
  "calculateStats \<lparr> data = sample_data, filteredData = sample_data \<rparr> =
     \<lparr> vis_avgConfidence = Fin (23 / 4), vis_totalEntries = 4,
       peakDay = ''2025-01-03'', peakScore = Fin 7 \<rparr>"
  by code_simp

lemma sample_professional_stats:
  "calculateStats (applyFilters ''professional'' ''all'' (Fin 1)
       \<lparr> data = sample_data, filteredData = sample_data \<rparr>) =
     \<lparr> vis_avgConfidence = Fin (11 / 2), vis_totalEntries = 2,
       peakDay = ''2025-01-03'', peakScore = Fin 6 \<rparr>"
  by code_simp

lemma sample_professional_view_trend:
  "calculateGrowthTrend
     \<lparr> data = applyFilters_view ''professional'' ''all'' (Fin 1) sample_data,
       filteredData = applyFilters_view ''professional'' ''all'' (Fin 1) sample_data \<rparr> = Fin 0"
  by code_simp

text \<open>
  C9 on the sample collection, filtered by the professional type: the trend stays at
  75 percent while the average goes from 23/4 to 11/2.
\<close>

theorem applyFilters_keeps_source_witness:
  "calculateGrowthTrend (applyFilters ''professional'' ''all'' (Fin 1)
       \<lparr> data = sample_data, filteredData = sample_data \<rparr>) = Fin 75
   \<and> calculateGrowthTrend \<lparr> data = sample_data, filteredData = sample_data \<rparr> = Fin 75
   \<and> vis_avgConfidence (calculateStats \<lparr> data = sample_data, filteredData = sample_data \<rparr>) = Fin (23 / 4)
   \<and> vis_avgConfidence (calculateStats (applyFilters ''professional'' ''all'' (Fin 1)
       \<lparr> data = sample_data, filteredData = sample_data \<rparr>)) = Fin (11 / 2)"
proof -
  have "calculateGrowthTrend (applyFilters ''professional'' ''all'' (Fin 1)
          \<lparr> data = sample_data, filteredData = sample_data \<rparr>) =
        calculateGrowthTrend \<lparr> data = sample_data, filteredData = sample_data \<rparr>"
    using applyFilters_keeps_source [of "''professional''" "''all''" "Fin 1"
        "\<lparr> data = sample_data, filteredData = sample_data \<rparr>"]
    by blast
  then show ?thesis
    by (simp add: sample_trend sample_stats sample_professional_stats)
qed


subsection \<open>The dominant type\<close>

lemma obj_set_not_Nil: "obj_set k v xs \<noteq> []"
  by (induction k v xs rule: obj_set.induct) simp_all

lemma hd_obj_set: "xs \<noteq> [] \<Longrightarrow> fst (hd (obj_set k v xs)) = fst (hd xs)"
  by (induction k v xs rule: obj_set.induct) simp_all

lemma counts_hd:
  "acc \<noteq> [] \<Longrightarrow> foldl count_type acc es \<noteq> [] \<and> fst (hd (foldl count_type acc es)) = fst (hd acc)"
proof (induction es arbitrary: acc)
  case Nil
  then show ?case by simp
next
  case (Cons e es)
  have "count_type acc e \<noteq> []" "fst (hd (count_type acc e)) = fst (hd acc)"
    using Cons.prems by (simp_all add: count_type_def obj_set_not_Nil hd_obj_set)
  with Cons.IH [of "count_type acc e"] show ?case by simp
qed

lemma counts_distinct:
  "distinct (map fst acc) \<Longrightarrow> distinct (map fst (foldl count_type acc es))"
  by (induction es arbitrary: acc) (simp_all add: count_type_def distinct_obj_set)

lemma counts_lookup:
  "(case map_of (foldl count_type acc es) t of None \<Rightarrow> 0 | Some c \<Rightarrow> c) =
     (case map_of acc t of None \<Rightarrow> 0 | Some c \<Rightarrow> c) + type_count t es"
proof (induction es arbitrary: acc)
  case Nil
  show ?case by (simp add: type_count_def)
next
  case (Cons e es)
  have "(case map_of (count_type acc e) t of None \<Rightarrow> 0 | Some c \<Rightarrow> c) =
      (case map_of acc t of None \<Rightarrow> 0 | Some c \<Rightarrow> c) + (if confidence_type e = t then 1 else 0)"
    by (simp add: count_type_def map_of_obj_set)
  with Cons.IH [of "count_type acc e"] show ?case
    by (simp add: type_count_def)
qed

lemma counts_value:
  assumes "(t, c) \<in> set (foldl count_type [] es)"
  shows "c = type_count t es"
proof -
  have "distinct (map fst (foldl count_type [] es))"
    by (rule counts_distinct) simp
  with assms have "map_of (foldl count_type [] es) t = Some c"
    by simp
  with counts_lookup [of "[]" es t] show ?thesis by simp
qed

lemma type_count_total: "type_count Personal es + type_count Professional es = length es"
proof (induction es)
  case Nil
  show ?case by (simp add: type_count_def)
next
  case (Cons e es)
  then show ?case
    by (cases "confidence_type e") (simp_all add: type_count_def)
qed

lemma js_insert_last:
  "(\<And>y. y \<in> set acc \<Longrightarrow> \<not> js_lt (cmp x y) (Fin 0)) \<Longrightarrow> js_insert cmp x acc = acc @ [x]"
  by (induction acc) simp_all

lemma js_sort_fold_ties:
  assumes "\<And>x y. x \<in> set (acc @ xs) \<Longrightarrow> y \<in> set (acc @ xs) \<Longrightarrow> \<not> js_lt (cmp x y) (Fin 0)"
  shows "foldl (\<lambda>acc x. js_insert cmp x acc) acc xs = acc @ xs"
  using assms
proof (induction xs arbitrary: acc)
  case Nil
  show ?case by simp
next
  case (Cons x xs)
  have "js_insert cmp x acc = acc @ [x]"
    by (rule js_insert_last) (simp add: Cons.prems)
  moreover have "foldl (\<lambda>acc x. js_insert cmp x acc) (acc @ [x]) xs = (acc @ [x]) @ xs"
    by (rule Cons.IH) (simp add: Cons.prems)
  ultimately show ?case by simp
qed

lemma js_sort_ties:
  "(\<And>x y. x \<in> set xs \<Longrightarrow> y \<in> set xs \<Longrightarrow> \<not> js_lt (cmp x y) (Fin 0)) \<Longrightarrow> js_sort cmp xs = xs"
  using js_sort_fold_ties [of "[]" xs cmp] by (simp add: js_sort_def)

lemma getDominantType_tie:
  assumes "es \<noteq> []" and tie: "type_count Personal es = type_count Professional es"
  shows "getDominantType es = confidence_type (hd es)"
proof -
  let ?m = "foldl count_type [] es"
  obtain e es' where es: "es = e # es'"
    using assms(1) by (cases es) auto
  have m: "?m = foldl count_type [(confidence_type e, 1)] es'"
    by (simp add: es count_type_def)
  have hd: "?m \<noteq> [] \<and> fst (hd ?m) = confidence_type e"
    unfolding m using counts_hd [of "[(confidence_type e, 1)]" es'] by simp
  have same: "snd x = snd y" if "x \<in> set ?m" "y \<in> set ?m" for x y
  proof -
    have "snd x = type_count (fst x) es" "snd y = type_count (fst y) es"
      using that counts_value [of "fst x" "snd x" es] counts_value [of "fst y" "snd y" es]
      by simp_all
    moreover have "type_count t es = type_count Personal es" for t
      using tie by (cases t) simp_all
    ultimately show ?thesis by metis
  qed
  have "js_sort by_count_desc ?m = ?m"
  proof (rule js_sort_ties)
    show "\<not> js_lt (by_count_desc x y) (Fin 0)" if "x \<in> set ?m" "y \<in> set ?m" for x y
      using same [OF that] by (simp add: by_count_desc_def js_minus_def)
  qed
  then have "getDominantType es = fst (hd ?m)"
    using hd by (cases ?m) (auto simp: getDominantType_def)
  with hd show ?thesis by (simp add: es)
qed

lemma App_day_tie:
  assumes "type_count Personal es = type_count Professional es"
  shows "dominant_confidence_area (App_day es) = Professional"
proof -
  have "2 * type_count Personal es = length es"
    using assms type_count_total [of es] by simp
  then have "real (length es) = 2 * real (type_count Personal es)"
    by (metis of_nat_mult of_nat_numeral)
  then show ?thesis
    by (simp add: App_day_def Let_def type_count_def)
qed

text \<open>
  C1, as amended. When a non-empty list of retained entries holds as many personal as
  professional entries, the React memo stores \<^verbatim>\<open>'professional'\<close>, and the day built
  by \<^verbatim>\<open>applyFilters\<close> stores the type of the first retained entry: the two counts
  tie, and the stable sort leaves the type counted first in front. \<^verbatim>\<open>getDominantType\<close>
  falls back to \<^verbatim>\<open>'personal'\<close> for an empty list only.
\<close>

theorem dominant_on_tie:
  "getDominantType [] = Personal
   \<and> (es \<noteq> [] \<and> type_count Personal es = type_count Professional es \<longrightarrow>
        dominant_confidence_area (App_day es) = Professional
        \<and> dominant_confidence_area (Visualizer_day es) = confidence_type (hd es))"
proof (intro conjI impI)
  show "getDominantType [] = Personal"
    by (simp add: getDominantType_def js_sort_def)
next
  assume "es \<noteq> [] \<and> type_count Personal es = type_count Professional es"
  then show "dominant_confidence_area (App_day es) = Professional"
    by (simp add: App_day_tie)
next
  assume "es \<noteq> [] \<and> type_count Personal es = type_count Professional es"
  then show "dominant_confidence_area (Visualizer_day es) = confidence_type (hd es)"
    by (simp add: Visualizer_day_def getDominantType_tie)
qed

text \<open>The amended C1 on a tied day whose first entry is personal.\<close>

theorem dominant_on_tie_witness:
  "tied_day \<noteq> []
   \<and> type_count Personal tied_day = type_count Professional tied_day
   \<and> dominant_confidence_area (App_day tied_day) = Professional
   \<and> dominant_confidence_area (Visualizer_day tied_day) = Personal"
  using dominant_on_tie [of tied_day]
  by (simp add: tied_day_def type_count_def)

text \<open>
  C1 as stated fails: on a tied day whose first entry is professional,
  \<^verbatim>\<open>applyFilters\<close> stores \<^verbatim>\<open>'professional'\<close>, not \<^verbatim>\<open>'personal'\<close>.
\<close>

theorem dominant_on_tie_counterexample:
  "type_count Personal
     [\<lparr> entry_text = ''gave the demo'', category = Technical_skills,
         confidence_type = Professional, power_level = 4 \<rparr>,
      \<lparr> entry_text = ''ran ten miles'', category = Physical_wellness,
         confidence_type = Personal, power_level = 8 \<rparr>]
   = type_count Professional
     [\<lparr> entry_text = ''gave the demo'', category = Technical_skills,
         confidence_type = Professional, power_level = 4 \<rparr>,
      \<lparr> entry_text = ''ran ten miles'', category = Physical_wellness,
         confidence_type = Personal, power_level = 8 \<rparr>]
   \<and> map (\<lambda>(k, v). dominant_confidence_area v)
       (applyFilters_view ''all'' ''all'' (Fin 1)
          [(''2025-01-01'',
            \<lparr> entries =
                [\<lparr> entry_text = ''gave the demo'', category = Technical_skills,
                    confidence_type = Professional, power_level = 4 \<rparr>,
                 \<lparr> entry_text = ''ran ten miles'', category = Physical_wellness,
                    confidence_type = Personal, power_level = 8 \<rparr>],
              daily_confidence_average = Fin 6,
              dominant_confidence_area = Professional \<rparr>)])
     = [Professional]"
  by code_simp

subsection \<open>Sorting and sums\<close>

lemma foldl_days_concat:
  "foldl (\<lambda>st day. foldl f st (entries day)) st days = foldl f st (concat (map entries days))"
  by (induction days arbitrary: st) simp_all

lemma foldl_js_plus_Fin: "foldl js_plus (Fin a) (map Fin rs) = Fin (a + sum_list rs)"
  by (induction rs arbitrary: a) (simp_all add: add.assoc)

lemma js_sum_Fin: "js_sum (map Fin rs) = Fin (sum_list rs)"
  by (simp add: js_sum_def foldl_js_plus_Fin)

lemma set_js_insert: "set (js_insert cmp x ys) = insert x (set ys)"
  by (induction ys) auto

lemma sum_js_insert: "sum_list (map h (js_insert cmp x ys)) = h x + sum_list (map (h :: 'a \<Rightarrow> real) ys)"
  by (induction ys) simp_all

lemma js_sort_fold:
  "set (foldl (\<lambda>acc x. js_insert cmp x acc) acc xs) = set acc \<union> set xs \<and>
   sum_list (map h (foldl (\<lambda>acc x. js_insert cmp x acc) acc xs)) =
     sum_list (map h acc) + sum_list (map (h :: 'a \<Rightarrow> real) xs)"
  by (induction xs arbitrary: acc) (simp_all add: set_js_insert sum_js_insert)

lemma set_js_sort: "set (js_sort cmp xs) = set xs"
  using js_sort_fold [of cmp "[]" xs] by (simp add: js_sort_def)

lemma sum_js_sort: "sum_list (map h (js_sort cmp xs)) = sum_list (map (h :: 'a \<Rightarrow> real) xs)"
  using js_sort_fold [of cmp "[]" xs h] by (simp add: js_sort_def)

subsection \<open>Rounding to doubles\<close>

lemma round_half_even_error: "\<bar>of_int (round_half_even r) - r\<bar> \<le> 1 / 2"
proof -
  have "of_int \<lfloor>r\<rfloor> \<le> r" "r < of_int \<lfloor>r\<rfloor> + 1"
    by linarith+
  then show ?thesis
    by (auto simp: round_half_even_def Let_def)
qed

lemma bitlen_real_bounds:
  assumes "0 < m"
  shows "(2 :: real) ^ nat (bitlen m - 1) \<le> real_of_int m \<and>
         real_of_int m + 1 \<le> 2 ^ nat (bitlen m) \<and> 1 \<le> bitlen m"
proof -
  have "2 ^ nat (bitlen m - 1) \<le> m" "m + 1 \<le> 2 ^ nat (bitlen m)"
    using bitlen_bounds [OF assms] by simp_all
  then have "real_of_int (2 ^ nat (bitlen m - 1)) \<le> real_of_int m"
    "real_of_int (m + 1) \<le> real_of_int (2 ^ nat (bitlen m))"
    by (simp_all only: of_int_le_iff)
  moreover have "1 \<le> bitlen m"
    using assms by (auto simp: bitlen_alt_def)
  ultimately show ?thesis by simp
qed

lemma binade_bounds:
  assumes "0 < x"
  shows "2 powi binade x \<le> x \<and> x < 2 powi (binade x + 1)"
proof (cases "1 \<le> x")
  case True
  let ?f = "\<lfloor>x\<rfloor>"
  have f: "0 < ?f" using True by simp
  note b = bitlen_real_bounds [OF f]
  have "real_of_int ?f \<le> x" "x < real_of_int ?f + 1" by linarith+
  with b have "2 ^ nat (bitlen ?f - 1) \<le> x" "x < 2 ^ nat (bitlen ?f)"
    by linarith+
  moreover have "(2 :: real) powi (bitlen ?f - 1) = 2 ^ nat (bitlen ?f - 1)"
    "(2 :: real) powi (bitlen ?f - 1 + 1) = 2 ^ nat (bitlen ?f)"
    using b by (simp_all add: power_int_def)
  ultimately show ?thesis
    using True by (simp add: binade_def)
next
  case False
  let ?m = "\<lceil>1 / x\<rceil> - 1"
  have y: "1 < 1 / x" using assms False by simp
  then have m: "0 < ?m" by linarith
  note b = bitlen_real_bounds [OF m]
  have "1 / x \<le> real_of_int ?m + 1" "real_of_int ?m < 1 / x" by linarith+
  with b have up: "1 / x \<le> 2 ^ nat (bitlen ?m)" and low: "2 ^ nat (bitlen ?m - 1) < 1 / x"
    by linarith+
  have "1 / 2 ^ nat (bitlen ?m) \<le> x"
    using up assms by (simp add: field_simps)
  moreover have "x < 1 / 2 ^ nat (bitlen ?m - 1)"
    using low assms by (simp add: field_simps)
  moreover have "(2 :: real) powi (- bitlen ?m) = 1 / 2 ^ nat (bitlen ?m)"
    using b by (simp add: power_int_def field_simps)
  moreover have "(2 :: real) powi (- bitlen ?m + 1) = 1 / 2 ^ nat (bitlen ?m - 1)"
  proof (cases "bitlen ?m = 1")
    case True
    then show ?thesis by simp
  next
    case False
    with b have "- bitlen ?m + 1 < 0" "nat (- (- bitlen ?m + 1)) = nat (bitlen ?m - 1)" by simp_all
    then show ?thesis by (simp add: power_int_def field_simps)
  qed
  ultimately show ?thesis
    using False by (simp add: binade_def)
qed

text \<open>
  Between \<open>2 powi (- 1022)\<close> and \<open>2 powi 1023\<close> rounding returns a finite number and
  moves its argument by at most the fraction \<open>1 / 2 ^ 53\<close> of it.
\<close>

lemma to_double_normal:
  assumes low: "2 powi (- 1022) \<le> x" and high: "x < 2 powi 1023"
  shows "\<exists>y. to_double x = Fin y \<and> \<bar>y - x\<bar> \<le> x / 2 ^ 53"
proof -
  have "(0 :: real) < 2 powi (- 1022)"
    by simp
  with low have pos: "0 < x"
    by linarith
  define e where "e = binade x"
  define q :: real where "q = 2 powi (e - 52)"
  define r where "r = of_int (round_half_even (x / q)) * q"
  have e: "2 powi e \<le> x" "x < 2 powi (e + 1)"
    using binade_bounds [OF pos] by (simp_all add: e_def)
  have "(2 :: real) powi (- 1022) < 2 powi (e + 1)"
    using low e(2) by linarith
  then have "- 1022 < e + 1"
    using power_int_increasing [of "e + 1" "- 1022" "2 :: real"] by force
  then have max: "max e (- 1022) = e" by simp
  have q: "0 < q" by (simp add: q_def)
  have "r - x = q * (of_int (round_half_even (x / q)) - x / q)"
    using q by (simp add: r_def right_diff_distrib)
  then have "\<bar>r - x\<bar> = q * \<bar>of_int (round_half_even (x / q)) - x / q\<bar>"
    using q by (simp add: abs_mult)
  also have "\<dots> \<le> q * (1 / 2)"
    using q round_half_even_error [of "x / q"] by (intro mult_left_mono) simp_all
  also have "q * (1 / 2) = 2 powi e / 2 ^ 53"
    by (simp add: q_def power_int_diff)
  also have "\<dots> \<le> x / 2 ^ 53"
    using e(1) by (simp add: divide_right_mono)
  finally have err: "\<bar>r - x\<bar> \<le> x / 2 ^ 53" .
  have "r \<le> x + x / 2 ^ 53" using err by linarith
  also have "\<dots> \<le> x * 2" using pos by (simp add: field_simps)
  also have "\<dots> < 2 powi 1023 * 2" using high by simp
  also have "\<dots> = 2 powi 1024" by (simp add: power_int_def)
  finally have "\<not> 2 powi 1024 \<le> r" by simp
  then have "to_double x = Fin r"
    using pos max by (simp add: to_double_def Let_def e_def [symmetric] q_def [symmetric] r_def [symmetric])
  with err show ?thesis by blast
qed

lemma normal_range:
  "(2 :: real) powi (- 1022) \<le> 1 / 2 ^ 55" "(256 :: real) \<le> 2 powi 1023"
proof -
  have "(2 :: real) powi (- 1022) \<le> 2 powi (- 55)"
    by (rule power_int_increasing) simp_all
  then show "(2 :: real) powi (- 1022) \<le> 1 / 2 ^ 55"
    by (simp add: power_int_minus_divide)
  have "(2 :: real) powi 8 \<le> 2 powi 1023"
    by (rule power_int_increasing) simp_all
  then show "(256 :: real) \<le> 2 powi 1023"
    by simp
qed

subsection \<open>The percentages of the category statistics\<close>

lemma sum_counts_obj_set:
  "sum_list (map (\<lambda>kv. snd (snd kv))
       (obj_set k (t, snd (case map_of m k of None \<Rightarrow> (z, 0) | Some c \<Rightarrow> c) + 1) m)) =
     sum_list (map (\<lambda>kv. snd (snd kv)) m) + (1 :: nat)"
  by (induction m) auto

lemma category_fold:
  "foldl category_entry (m, n) es = (m', n') \<Longrightarrow>
     n' = n + length es \<and>
     sum_list (map (\<lambda>kv. snd (snd kv)) m') = sum_list (map (\<lambda>kv. snd (snd kv)) m) + length es \<and>
     ((\<forall>kv \<in> set m. 1 \<le> snd (snd kv)) \<longrightarrow> (\<forall>kv \<in> set m'. 1 \<le> snd (snd kv)))"
proof (induction es arbitrary: m n)
  case Nil
  then show ?case by simp
next
  case (Cons e es)
  obtain m1 n1 where step: "category_entry (m, n) e = (m1, n1)"
    by (cases "category_entry (m, n) e") auto
  then have n1: "n1 = n + 1"
    and sum: "sum_list (map (\<lambda>kv. snd (snd kv)) m1) = sum_list (map (\<lambda>kv. snd (snd kv)) m) + 1"
    using sum_counts_obj_set [of "category e" _ "Fin 0" m]
    by (auto simp: category_entry_def Let_def)
  have pos: "\<forall>kv \<in> set m1. 1 \<le> snd (snd kv)" if "\<forall>kv \<in> set m. 1 \<le> snd (snd kv)"
  proof
    fix kv assume "kv \<in> set m1"
    then have "kv \<in> insert (category e,
        js_plus64 (fst (case map_of m (category e) of None \<Rightarrow> (Fin 0, 0) | Some c \<Rightarrow> c))
          (Fin (power_level e)),
        snd (case map_of m (category e) of None \<Rightarrow> (Fin 0, 0) | Some c \<Rightarrow> c) + 1) (set m)"
      using step set_obj_set by (fastforce simp: category_entry_def Let_def)
    with that show "1 \<le> snd (snd kv)" by auto
  qed
  have "foldl category_entry (m1, n1) es = (m', n')"
    using Cons.prems step by simp
  then have "n' = n1 + length es \<and>
     sum_list (map (\<lambda>kv. snd (snd kv)) m') = sum_list (map (\<lambda>kv. snd (snd kv)) m1) + length es \<and>
     ((\<forall>kv \<in> set m1. 1 \<le> snd (snd kv)) \<longrightarrow> (\<forall>kv \<in> set m'. 1 \<le> snd (snd kv)))"
    by (rule Cons.IH)
  with n1 sum pos show ?case by simp
qed

text \<open>
  The percentage of a category of \<open>cnt\<close> entries out of \<open>n\<close> is finite and differs from
  the exact share by at most the fraction \<open>(1 + 1 / 2 ^ 53)\<^sup>2 - 1\<close> of it: the quotient
  rounds once and the product rounds once.
\<close>

lemma percentage_category_stats:
  assumes "1 \<le> cnt" and "cnt \<le> n" and "n < 2 ^ 53"
  shows "\<exists>p. percentage (category_stats n (cat, tot, cnt)) = Fin p \<and>
           \<bar>p - real cnt / real n * 100\<bar> \<le> real cnt / real n * 100 * ((1 + 1 / 2 ^ 53)\<^sup>2 - 1)"
proof -
  define u :: real where "u = 1 / 2 ^ 53"
  define x where "x = real cnt / real n"
  have n: "0 < real n" "real n < 2 ^ 53"
    using assms by simp_all
  have u: "0 < u" "u \<le> 1 / 2" by (simp_all add: u_def)
  have "1 / real n \<le> x"
    using assms n by (simp add: x_def divide_right_mono)
  moreover have "1 / 2 ^ 53 < 1 / real n"
    using n by (simp add: field_simps)
  ultimately have x_low: "1 / 2 ^ 53 \<le> x" by linarith
  have x_high: "x \<le> 1"
    using assms n by (simp add: x_def)
  have x_pos: "0 < x"
    using x_low by simp
  have "2 powi (- 1022) \<le> x" "x < 2 powi 1023"
    using x_low x_high normal_range by simp_all
  from to_double_normal [OF this]
  obtain y where y: "to_double x = Fin y" "\<bar>y - x\<bar> \<le> x * u"
    by (auto simp: u_def)
  have xu: "x * u \<le> x / 2"
    using u(2) x_pos mult_left_mono [of u "1 / 2" x] by simp
  have y_low: "x / 2 \<le> y" and y_high: "y \<le> x + x * u"
    using y(2) xu by linarith+
  have "1 / 2 ^ 55 \<le> y * 100"
    using y_low x_low by simp
  moreover have "y * 100 < 256"
    using y_high xu x_high by linarith
  ultimately have "2 powi (- 1022) \<le> y * 100" "y * 100 < 2 powi 1023"
    using normal_range by linarith+
  from to_double_normal [OF this]
  obtain p where p: "to_double (y * 100) = Fin p" "\<bar>p - y * 100\<bar> \<le> y * 100 * u"
    by (auto simp: u_def)
  have "percentage (category_stats n (cat, tot, cnt)) = Fin p"
    using n y(1) p(1)
    by (simp add: category_stats_def js_div64_def js_times64_def rounded_def x_def)
  moreover have "\<bar>p - x * 100\<bar> \<le> x * 100 * ((1 + u)\<^sup>2 - 1)"
  proof -
    have p_high: "p \<le> y * (100 + 100 * u)" and p_low: "y * (100 - 100 * u) \<le> p"
      using p(2) by (simp_all add: abs_le_iff algebra_simps)
    have y_least: "x - x * u \<le> y"
      using y(2) by linarith
    have "y * (100 + 100 * u) \<le> (x + x * u) * (100 + 100 * u)"
      using y_high u by (intro mult_right_mono) simp_all
    with p_high have "p - x * 100 \<le> x * 100 * ((1 + u)\<^sup>2 - 1)"
      by (simp add: power2_eq_square algebra_simps)
    moreover have "(x - x * u) * (100 - 100 * u) \<le> y * (100 - 100 * u)"
      using y_least u by (intro mult_right_mono) simp_all
    with p_low have "x * 100 - p \<le> x * 100 * (2 * u - u * u)"
      by (simp add: algebra_simps)
    moreover have "x * 100 * (2 * u - u * u) \<le> x * 100 * ((1 + u)\<^sup>2 - 1)"
      using x_pos u by (simp add: power2_eq_square algebra_simps)
    ultimately show ?thesis
      by (simp add: abs_le_iff)
  qed
  ultimately show ?thesis
    by (auto simp: x_def u_def)
qed

lemma sum_shares:
  "sum_list (map (\<lambda>kv. real (snd (snd kv)) / real n * 100) m) =
     real (sum_list (map (\<lambda>kv. snd (snd kv)) m)) / real n * 100"
  by (induction m) (simp_all add: add_divide_distrib distrib_right)

lemma sum_list_close:
  fixes f g h :: "'a \<Rightarrow> real"
  assumes "\<And>x. x \<in> set xs \<Longrightarrow> \<bar>f x - g x\<bar> \<le> h x"
  shows "\<bar>sum_list (map f xs) - sum_list (map g xs)\<bar> \<le> sum_list (map h xs)"
  using assms
proof (induction xs)
  case Nil
  show ?case by simp
next
  case (Cons x xs)
  have "\<bar>f x - g x\<bar> \<le> h x"
    by (rule Cons.prems) simp
  moreover have "\<bar>sum_list (map f xs) - sum_list (map g xs)\<bar> \<le> sum_list (map h xs)"
    by (rule Cons.IH) (simp add: Cons.prems)
  ultimately show ?case by simp
qed

lemma category_fold_distinct:
  "foldl category_entry (m, n) es = (m', n') \<Longrightarrow> distinct (map fst m) \<Longrightarrow> distinct (map fst m')"
proof (induction es arbitrary: m n)
  case Nil
  then show ?case by simp
next
  case (Cons e es)
  obtain m1 n1 where step: "category_entry (m, n) e = (m1, n1)"
    by (cases "category_entry (m, n) e") auto
  then have "distinct (map fst m1)"
    using Cons.prems(2) by (auto simp: category_entry_def Let_def distinct_obj_set)
  moreover have "foldl category_entry (m1, n1) es = (m', n')"
    using Cons.prems(1) step by simp
  ultimately show ?case by (rule Cons.IH [rotated])
qed

lemma Category_UNIV:
  "(UNIV :: Category set) =
     {Career_development, Personal_growth, Professional_presentation, Technical_skills,
      Social_interactions, Self_image, Physical_wellness, Creative_work}"
proof -
  have "c \<in> {Career_development, Personal_growth, Professional_presentation, Technical_skills,
      Social_interactions, Self_image, Physical_wellness, Creative_work}" for c
    by (cases c) simp_all
  then show ?thesis by blast
qed

lemma distinct_categories_length:
  assumes "distinct (cs :: Category list)"
  shows "length cs \<le> 8"
proof -
  have "length cs = card (set cs)"
    using assms by (simp add: distinct_card)
  also have "\<dots> \<le> card (UNIV :: Category set)"
  proof (rule card_mono)
    show "finite (UNIV :: Category set)" by (simp add: Category_UNIV)
    show "set cs \<subseteq> UNIV" by simp
  qed
  also have "\<dots> = 8"
    by (simp add: Category_UNIV)
  finally show ?thesis .
qed

text \<open>
  A sum in doubles of at most eight positive numbers: each addition moves the partial
  sum by at most the fraction \<open>1 / 2 ^ 53\<close> of it. There are eight categories.
\<close>

lemma js_plus64_close:
  assumes "0 \<le> a" and "1 / 2 ^ 55 \<le> p" and "a + p < 256"
  shows "\<exists>b. js_plus64 (Fin a) (Fin p) = Fin b \<and>
           (a + p) * (1 - 1 / 2 ^ 53) \<le> b \<and> b \<le> (a + p) * (1 + 1 / 2 ^ 53)"
proof -
  have "2 powi (- 1022) \<le> a + p" "a + p < 2 powi 1023"
    using assms normal_range by linarith+
  from to_double_normal [OF this]
  obtain b where b: "to_double (a + p) = Fin b" and err: "\<bar>b - (a + p)\<bar> \<le> (a + p) / 2 ^ 53"
    by blast
  have "js_plus64 (Fin a) (Fin p) = Fin b"
    using b by (simp add: js_plus64_def rounded_def)
  moreover have "(a + p) - (a + p) / 2 ^ 53 \<le> b" "b \<le> (a + p) + (a + p) / 2 ^ 53"
    using err by linarith+
  moreover have "(a + p) * (1 - 1 / 2 ^ 53) = (a + p) - (a + p) / 2 ^ 53"
    "(a + p) * (1 + 1 / 2 ^ 53) = (a + p) + (a + p) / 2 ^ 53"
    by (simp_all only: right_diff_distrib distrib_left mult_1_right times_divide_eq_right)
  ultimately show ?thesis
    by (simp only:) blast
qed

lemma js_sum64_fold:
  fixes u :: real
  defines "u \<equiv> 1 / 2 ^ 53"
  assumes "0 \<le> A" and "(1 - u) ^ j * A \<le> a" and "a \<le> (1 + u) ^ j * A"
    and "\<And>p. p \<in> set ps \<Longrightarrow> 1 / 2 ^ 55 \<le> p"
    and "(1 + u) ^ (j + length ps) * (A + sum_list ps) < 256"
  shows "\<exists>b. foldl js_plus64 (Fin a) (map Fin ps) = Fin b \<and>
           (1 - u) ^ (j + length ps) * (A + sum_list ps) \<le> b \<and>
           b \<le> (1 + u) ^ (j + length ps) * (A + sum_list ps)"
  using assms(2-)
proof (induction ps arbitrary: a A j)
  case Nil
  then show ?case by simp
next
  case (Cons p ps)
  have u: "0 \<le> 1 - u" "1 - u \<le> 1" "1 \<le> 1 + u"
    by (simp_all add: u_def)
  have low: "(1 - u) ^ j \<le> 1" "0 \<le> (1 - u) ^ j"
    using u by (simp_all add: power_le_one)
  have up: "1 \<le> (1 + u) ^ j"
    using u by simp
  have p: "1 / 2 ^ 55 \<le> p" "0 \<le> p"
    using Cons.prems(4) [of p] by simp_all
  have rest: "0 \<le> sum_list ps"
  proof (rule sum_list_nonneg)
    fix x assume "x \<in> set ps"
    then have "1 / 2 ^ 55 \<le> x" using Cons.prems(4) [of x] by simp
    then show "0 \<le> x" by simp
  qed
  have "0 \<le> (1 - u) ^ j * A"
    using low(2) Cons.prems(1) by (rule mult_nonneg_nonneg)
  with Cons.prems(2) have a: "0 \<le> a"
    by linarith
  have ap_high: "a + p \<le> (1 + u) ^ j * (A + p)"
  proof -
    have "p \<le> (1 + u) ^ j * p"
      using up p(2) by (simp add: mult_le_cancel_right1)
    with Cons.prems(3) show ?thesis by (simp add: algebra_simps)
  qed
  have ap_low: "(1 - u) ^ j * (A + p) \<le> a + p"
  proof -
    have "(1 - u) ^ j * p \<le> p"
      using low p(2) by (simp add: mult_left_le_one_le)
    with Cons.prems(2) show ?thesis by (simp add: algebra_simps)
  qed
  have bound: "(1 + u) ^ (j + length (p # ps)) * (A + sum_list (p # ps)) < 256"
    by (rule Cons.prems(5))
  have "(1 + u) ^ j * (A + p) \<le> (1 + u) ^ (j + length (p # ps)) * (A + sum_list (p # ps))"
  proof (rule mult_mono)
    show "(1 + u) ^ j \<le> (1 + u) ^ (j + length (p # ps))"
      using u by (intro power_increasing) simp_all
    show "A + p \<le> A + sum_list (p # ps)" using rest by simp
    show "0 \<le> (1 + u) ^ (j + length (p # ps))" using u by simp
    show "0 \<le> A + p" using Cons.prems(1) p by simp
  qed
  with ap_high bound have "a + p < 256" by linarith
  from js_plus64_close [OF a p(1) this]
  obtain b where b: "js_plus64 (Fin a) (Fin p) = Fin b"
    "(a + p) * (1 - u) \<le> b" "b \<le> (a + p) * (1 + u)"
    by (auto simp: u_def)
  have b_low: "(1 - u) ^ Suc j * (A + p) \<le> b"
  proof -
    have "(1 - u) ^ j * (A + p) * (1 - u) \<le> (a + p) * (1 - u)"
      using ap_low u by (intro mult_right_mono) simp_all
    with b(2) show ?thesis by (simp add: algebra_simps)
  qed
  have b_high: "b \<le> (1 + u) ^ Suc j * (A + p)"
  proof -
    have "(a + p) * (1 + u) \<le> (1 + u) ^ j * (A + p) * (1 + u)"
      using ap_high u by (intro mult_right_mono) simp_all
    with b(3) show ?thesis by (simp add: algebra_simps)
  qed
  have "\<exists>c. foldl js_plus64 (Fin b) (map Fin ps) = Fin c \<and>
           (1 - u) ^ (Suc j + length ps) * ((A + p) + sum_list ps) \<le> c \<and>
           c \<le> (1 + u) ^ (Suc j + length ps) * ((A + p) + sum_list ps)"
  proof (rule Cons.IH)
    show "0 \<le> A + p" using Cons.prems(1) p by simp
    show "(1 - u) ^ Suc j * (A + p) \<le> b" by (rule b_low)
    show "b \<le> (1 + u) ^ Suc j * (A + p)" by (rule b_high)
    show "1 / 2 ^ 55 \<le> x" if "x \<in> set ps" for x using that Cons.prems(4) by simp
    show "(1 + u) ^ (Suc j + length ps) * (A + p + sum_list ps) < 256"
      using bound by (simp add: add.assoc)
  qed
  then show ?case
    using b(1) by (simp add: add.assoc)
qed

lemma length_js_insert: "length (js_insert cmp x ys) = Suc (length ys)"
  by (induction ys) simp_all

lemma length_js_sort_fold:
  "length (foldl (\<lambda>acc x. js_insert cmp x acc) acc xs) = length acc + length xs"
  by (induction xs arbitrary: acc) (simp_all add: length_js_insert)

lemma length_js_sort: "length (js_sort cmp xs) = length xs"
  by (simp add: js_sort_def length_js_sort_fold)

text \<open>The two tolerances as numbers.\<close>

lemma tolerance_numbers:
  fixes u :: real
  defines "u \<equiv> 1 / 2 ^ 53"
  shows "(1 + u)\<^sup>2 - 1 \<le> 1 / 2"
    and "(1 + u) ^ 8 * (100 + 100 * ((1 + u)\<^sup>2 - 1)) = 100 * (1 + u) ^ 10"
    and "100 * (1 + u) ^ 10 < 256"
    and "100 * (2 - (1 + u) ^ 10) \<le> (1 - u) ^ 8 * (100 - 100 * ((1 + u)\<^sup>2 - 1))"
  by (simp_all add: u_def power_divide)


text \<open>
  C8, as amended. For every collection that holds at least one entry and fewer than
  \<open>2 ^ 53\<close> entries, every percentage of the category statistics is a finite double,
  and the percentages sum to 100 within the tolerance of rounding: their exact sum is
  within \<open>100 * ((1 + 1 / 2 ^ 53)\<^sup>2 - 1)\<close> of 100, less than \<open>2.3 / 10 ^ 14\<close>, and
  their sum in doubles, added left to right from zero, is finite and within
  \<open>100 * ((1 + 1 / 2 ^ 53) ^ 10 - 1)\<close> of 100, less than \<open>1.2 / 10 ^ 13\<close>.
\<close>

theorem category_percentages_sum:
  assumes "all_entries dat \<noteq> []" and "length (all_entries dat) < 2 ^ 53"
  shows "(\<forall>s \<in> set (calculateCategoryStats dat). \<exists>p. percentage s = Fin p)
       \<and> \<bar>sum_list (map (\<lambda>s. fin_value (percentage s)) (calculateCategoryStats dat)) - 100\<bar>
           \<le> 100 * ((1 + 1 / 2 ^ 53)\<^sup>2 - 1)
       \<and> (\<exists>t. js_sum64 (map percentage (calculateCategoryStats dat)) = Fin t
              \<and> \<bar>t - 100\<bar> \<le> 100 * ((1 + 1 / 2 ^ 53) ^ 10 - 1))"
proof -
  obtain m n where fold:
    "foldl category_entry ([], 0) (all_entries dat) = (m, n)"
    by (cases "foldl category_entry ([], 0) (all_entries dat)") auto
  have n: "n = length (all_entries dat)"
    and total: "sum_list (map (\<lambda>kv. snd (snd kv)) m) = length (all_entries dat)"
    and ones: "\<forall>kv \<in> set m. 1 \<le> snd (snd kv)"
    using category_fold [OF fold] by simp_all
  have keys: "distinct (map fst m)"
    using category_fold_distinct [OF fold] by simp
  have pos: "n \<noteq> 0" and small: "n < 2 ^ 53"
    using assms n by simp_all
  have stats: "calculateCategoryStats dat = js_sort by_avg_desc (map (category_stats n) m)"
    using fold
    by (simp add: calculateCategoryStats_def foldl_days_concat Object_values_def all_entries_def
        comp_def)
  define u :: real where "u = 1 / 2 ^ 53"
  define tol :: real where "tol = (1 + u)\<^sup>2 - 1"
  note numbers = tolerance_numbers [folded u_def, folded tol_def]
  have u: "0 \<le> 1 - u" "1 - u \<le> 1" "1 \<le> 1 + u"
    by (simp_all add: u_def)
  let ?share = "\<lambda>kv :: Category \<times> jsnum \<times> nat. real (snd (snd kv)) / real n * 100"
  let ?pct = "\<lambda>kv. fin_value (percentage (category_stats n kv))"
  have each: "percentage (category_stats n kv) = Fin (?pct kv) \<and>
      \<bar>?pct kv - ?share kv\<bar> \<le> ?share kv * tol \<and> 1 / 2 ^ 55 \<le> ?pct kv"
    if "kv \<in> set m" for kv
  proof -
    obtain cat tot cnt where kv: "kv = (cat, tot, cnt)"
      by (cases kv) auto
    have one: "1 \<le> cnt" using ones that kv by auto
    have "cnt \<le> sum_list (map (\<lambda>kv. snd (snd kv)) m)"
      using that kv by (intro member_le_sum_list) force+
    then have le: "cnt \<le> n" using total n by simp
    define sh where "sh = real cnt / real n * 100"
    obtain p where p: "percentage (category_stats n (cat, tot, cnt)) = Fin p"
      "\<bar>p - sh\<bar> \<le> sh * tol"
      using percentage_category_stats [of cnt n cat tot] one le small
      by (auto simp: tol_def u_def sh_def)
    have "1 / real n \<le> real cnt / real n"
      using one pos by (simp add: divide_right_mono)
    moreover have "1 / 2 ^ 53 < 1 / real n"
      using small pos by (simp add: field_simps)
    ultimately have share: "100 / 2 ^ 53 \<le> sh"
      by (simp add: sh_def)
    then have "0 \<le> sh" by simp
    then have "sh * tol \<le> sh * (1 / 2)"
      using numbers(1) by (intro mult_left_mono) simp_all
    then have half: "sh * tol \<le> sh / 2" by simp
    define c :: real where "c = 1 / 2 ^ 55"
    have "c \<le> (100 / 2 ^ 53) / 2"
      by (simp add: c_def)
    also have "\<dots> \<le> sh / 2"
      using share by (rule divide_right_mono) simp
    finally have "c \<le> sh / 2" .
    with half p(2) have "c \<le> p"
      by linarith
    then have "1 / 2 ^ 55 \<le> p"
      by (simp only: c_def)
    with p have "percentage (category_stats n (cat, tot, cnt)) = Fin p \<and>
      \<bar>p - sh\<bar> \<le> sh * tol \<and> 1 / 2 ^ 55 \<le> p"
      by simp
    then show ?thesis by (simp add: kv sh_def)
  qed
  let ?stats = "calculateCategoryStats dat"
  let ?ps = "map (\<lambda>s. fin_value (percentage s)) ?stats"
  have member: "\<exists>kv \<in> set m. s = category_stats n kv" if "s \<in> set ?stats" for s
    using that by (auto simp: stats set_js_sort)
  have finite: "\<forall>s \<in> set ?stats. \<exists>p. percentage s = Fin p"
    using member each by blast
  have "sum_list ?ps = sum_list (map (\<lambda>s. fin_value (percentage s)) (map (category_stats n) m))"
    by (simp only: stats sum_js_sort)
  also have "\<dots> = sum_list (map ?pct m)"
    by (simp add: comp_def)
  finally have sum: "sum_list ?ps = sum_list (map ?pct m)" .
  have "\<bar>sum_list (map ?pct m) - sum_list (map ?share m)\<bar> \<le> sum_list (map (\<lambda>kv. ?share kv * tol) m)"
    by (rule sum_list_close) (use each in blast)
  moreover have "sum_list (map ?share m) = 100"
    using pos n by (simp only: sum_shares total) simp
  moreover have "sum_list (map (\<lambda>kv. ?share kv * tol) m) = sum_list (map ?share m) * tol"
    by (rule sum_list_mult_const)
  ultimately have close: "\<bar>sum_list ?ps - 100\<bar> \<le> 100 * tol"
    using sum by simp
  have k: "length ?ps \<le> 8"
    using distinct_categories_length [OF keys] by (simp add: stats length_js_sort)
  have doubles: "map percentage ?stats = map Fin ?ps"
  proof -
    have "map percentage ?stats = map (\<lambda>s. Fin (fin_value (percentage s))) ?stats"
    proof (rule map_cong [OF refl])
      fix s assume "s \<in> set ?stats"
      with finite obtain p where "percentage s = Fin p" by blast
      then show "percentage s = Fin (fin_value (percentage s))" by simp
    qed
    also have "\<dots> = map Fin ?ps"
      by (simp only: map_map comp_def)
    finally show ?thesis .
  qed
  have S_high: "sum_list ?ps \<le> 100 + 100 * tol" and S_low: "100 - 100 * tol \<le> sum_list ?ps"
    using close by linarith+
  have S_pos: "0 \<le> sum_list ?ps"
    using S_low numbers(1) by linarith
  have U: "(1 + u) ^ length ?ps \<le> (1 + u) ^ 8"
    using u k by (intro power_increasing) simp_all
  have L: "(1 - u) ^ 8 \<le> (1 - u) ^ length ?ps"
    using u k by (intro power_decreasing) simp_all
  have top: "(1 + u) ^ length ?ps * sum_list ?ps \<le> 100 * (1 + u) ^ 10"
  proof -
    have "(1 + u) ^ length ?ps * sum_list ?ps \<le> (1 + u) ^ 8 * (100 + 100 * tol)"
      using U S_high S_pos u by (intro mult_mono) simp_all
    then show ?thesis by (simp only: numbers(2))
  qed
  have bottom: "100 * (2 - (1 + u) ^ 10) \<le> (1 - u) ^ length ?ps * sum_list ?ps"
  proof -
    have "(1 - u) ^ 8 * (100 - 100 * tol) \<le> (1 - u) ^ length ?ps * sum_list ?ps"
      using L S_low u numbers(1) by (intro mult_mono) simp_all
    with numbers(4) show ?thesis by linarith
  qed
  have "\<exists>b. foldl js_plus64 (Fin 0) (map Fin ?ps) = Fin b \<and>
           (1 - 1 / 2 ^ 53) ^ (0 + length ?ps) * (0 + sum_list ?ps) \<le> b \<and>
           b \<le> (1 + 1 / 2 ^ 53) ^ (0 + length ?ps) * (0 + sum_list ?ps)"
  proof (rule js_sum64_fold)
    show "(0 :: real) \<le> 0" "(1 - 1 / 2 ^ 53) ^ 0 * 0 \<le> (0 :: real)" "(0 :: real) \<le> (1 + 1 / 2 ^ 53) ^ 0 * 0"
      by simp_all
    show "1 / 2 ^ 55 \<le> p" if "p \<in> set ?ps" for p
    proof -
      from that obtain s where "s \<in> set ?stats" "p = fin_value (percentage s)"
        by auto
      moreover from this member obtain kv where "kv \<in> set m" "s = category_stats n kv"
        by blast
      ultimately show ?thesis
        using each [of kv] by blast
    qed
    show "(1 + 1 / 2 ^ 53) ^ (0 + length ?ps) * (0 + sum_list ?ps) < 256"
      using top numbers(3) by (simp add: u_def)
  qed
  then obtain t where t: "js_sum64 (map percentage ?stats) = Fin t"
    "(1 - u) ^ length ?ps * sum_list ?ps \<le> t" "t \<le> (1 + u) ^ length ?ps * sum_list ?ps"
    by (auto simp: js_sum64_def doubles u_def)
  have "\<bar>t - 100\<bar> \<le> 100 * ((1 + u) ^ 10 - 1)"
    using t(2,3) top bottom by (simp add: abs_le_iff)
  with t(1) finite close show ?thesis
    by (auto simp: tol_def u_def)
qed

text \<open>Some arguments as they round, for the collections below.\<close>

lemma double_whole: "to_double 8 = Fin 8" "to_double 6 = Fin 6" "to_double 4 = Fin 4"
  by code_simp+

lemma double_third: "to_double (1 / 3) = Fin (6004799503160661 / 18014398509481984)"
  by code_simp

lemma double_third_percent:
  "to_double (150119987579016525 / 4503599627370496) = Fin (2345624805922133 / 70368744177664)"
  by code_simp

lemma double_sums:
  "to_double (2345624805922133 / 70368744177664) = Fin (2345624805922133 / 70368744177664)"
  "to_double (2345624805922133 / 35184372088832) = Fin (2345624805922133 / 35184372088832)"
  "to_double (7036874417766399 / 70368744177664) = Fin (7036874417766399 / 70368744177664)"
  by code_simp+

lemma thirds_percentages:
  "map percentage (calculateCategoryStats thirds_data) =
     [Fin (2345624805922133 / 70368744177664), Fin (2345624805922133 / 70368744177664),
      Fin (2345624805922133 / 70368744177664)]"
  by (simp add: calculateCategoryStats_def Object_values_def thirds_data_def category_entry_def
      category_stats_def js_plus64_def js_div64_def js_times64_def rounded_def js_sort_def
      by_avg_desc_def js_minus_def double_whole double_third double_third_percent)

lemma thirds_sum64:
  "js_sum64 [Fin (2345624805922133 / 70368744177664), Fin (2345624805922133 / 70368744177664),
      Fin (2345624805922133 / 70368744177664)] = Fin (100 - 1 / 2 ^ 46)"
  by (simp add: js_sum64_def js_plus64_def rounded_def double_sums)

text \<open>
  The amended C8 on a day of three entries in three categories: each percentage is the
  double next below 33 and a third, and the sum is \<open>100 - 1 / 2 ^ 46\<close>.
\<close>

theorem category_percentages_sum_witness:
  "all_entries thirds_data \<noteq> []
   \<and> length (all_entries thirds_data) < 2 ^ 53
   \<and> map percentage (calculateCategoryStats thirds_data) =
       [Fin (2345624805922133 / 70368744177664), Fin (2345624805922133 / 70368744177664),
        Fin (2345624805922133 / 70368744177664)]
   \<and> \<bar>sum_list (map fin_value (map percentage (calculateCategoryStats thirds_data))) - 100\<bar>
       \<le> 100 * ((1 + 1 / 2 ^ 53)\<^sup>2 - 1)
   \<and> js_sum64 (map percentage (calculateCategoryStats thirds_data)) = Fin (100 - 1 / 2 ^ 46)"
proof -
  have some: "all_entries thirds_data \<noteq> []" and few: "length (all_entries thirds_data) < 2 ^ 53"
    by (simp_all add: all_entries_def thirds_data_def)
  have "\<bar>sum_list (map (\<lambda>s. fin_value (percentage s)) (calculateCategoryStats thirds_data)) - 100\<bar>
      \<le> 100 * ((1 + 1 / 2 ^ 53)\<^sup>2 - 1)"
    using category_percentages_sum [OF some few] by blast
  moreover have "map (\<lambda>s. fin_value (percentage s)) (calculateCategoryStats thirds_data) =
      map fin_value (map percentage (calculateCategoryStats thirds_data))"
    by (simp only: map_map comp_def)
  ultimately have "\<bar>sum_list (map fin_value (map percentage (calculateCategoryStats thirds_data))) - 100\<bar>
      \<le> 100 * ((1 + 1 / 2 ^ 53)\<^sup>2 - 1)"
    by (simp only:)
  moreover have "js_sum64 (map percentage (calculateCategoryStats thirds_data)) = Fin (100 - 1 / 2 ^ 46)"
    by (simp only: thirds_percentages thirds_sum64)
  ultimately show ?thesis
    using some few thirds_percentages by blast
qed

text \<open>
  C8 as stated fails twice. Three categories of one entry each have percentages that
  sum to \<open>100 - 1 / 2 ^ 46\<close>, exactly and in doubles, not to 100. And a collection of
  one date whose day has no entries is not empty and has no category statistics at all.
\<close>

theorem category_percentages_sum_counterexample:
  "map percentage (calculateCategoryStats
      [(''2025-01-01'',
        \<lparr> entries =
            [\<lparr> entry_text = ''ran ten miles'', category = Physical_wellness,
                confidence_type = Personal, power_level = 8 \<rparr>,
             \<lparr> entry_text = ''gave the demo'', category = Technical_skills,
                confidence_type = Professional, power_level = 6 \<rparr>,
             \<lparr> entry_text = ''spoke up'', category = Self_image,
                confidence_type = Personal, power_level = 4 \<rparr>],
          daily_confidence_average = Fin 6,
          dominant_confidence_area = Personal \<rparr>)]) =
     [Fin (2345624805922133 / 70368744177664), Fin (2345624805922133 / 70368744177664),
      Fin (2345624805922133 / 70368744177664)]
   \<and> sum_list [2345624805922133 / 70368744177664, 2345624805922133 / 70368744177664,
        2345624805922133 / 70368744177664] = (100 - 1 / 2 ^ 46 :: real)
   \<and> js_sum64 [Fin (2345624805922133 / 70368744177664), Fin (2345624805922133 / 70368744177664),
        Fin (2345624805922133 / 70368744177664)] = Fin (100 - 1 / 2 ^ 46)
   \<and> calculateCategoryStats
        [(''2025-01-01'', \<lparr> entries = [], daily_confidence_average = Fin 0,
                             dominant_confidence_area = Personal \<rparr>)] = []"
proof -
  have "calculateCategoryStats
        [(''2025-01-01'', \<lparr> entries = [], daily_confidence_average = Fin 0,
                             dominant_confidence_area = Personal \<rparr>)] = []"
    by (simp add: calculateCategoryStats_def Object_values_def js_sort_def)
  moreover have "sum_list [2345624805922133 / 70368744177664, 2345624805922133 / 70368744177664,
        2345624805922133 / 70368744177664] = (100 - 1 / 2 ^ 46 :: real)"
    by simp
  ultimately show ?thesis
    using thirds_percentages [unfolded thirds_data_def] thirds_sum64 by blast
qed

subsection \<open>The histogram of power levels\<close>

lemma array_index_Some: "array_index x = Some i \<Longrightarrow> x = real i"
  by (auto simp: array_index_def split: if_splits)

lemma array_index_nat: "k < 10 \<Longrightarrow> array_index (real k) = Some k"
  by (simp add: array_index_def)

lemma array_incr_first_ten:
  assumes len: "10 \<le> length arr"
    and cells: "\<And>i. i < 10 \<Longrightarrow> arr ! i = Some (Fin (c i))"
  shows "10 \<le> length (array_incr arr (p - 1)) \<and>
         (\<forall>i<10. array_incr arr (p - 1) ! i = Some (Fin (c i + (if p = real (i + 1) then 1 else 0))))"
proof (cases "array_index (p - 1)")
  case None
  have "p \<noteq> real (i + 1)" if "i < 10" for i
    using None array_index_nat [OF that] by auto
  with None len cells show ?thesis
    by (simp add: array_incr_def)
next
  case (Some k)
  then have p: "p = real (k + 1)"
    using array_index_Some [of "p - 1" k] by simp
  show ?thesis
  proof (cases "k < length arr")
    case True
    have "array_incr arr (p - 1) = arr[k := Some (js_incr (arr ! k))]"
      using Some True by (simp add: array_incr_def)
    moreover have "arr[k := Some (js_incr (arr ! k))] ! i =
        Some (Fin (c i + (if p = real (i + 1) then 1 else 0)))" if "i < 10" for i
    proof (cases "i = k")
      case True
      with that len cells [of k] p show ?thesis
        by (simp add: js_incr_def)
    next
      case False
      with that cells [of i] p show ?thesis
        by simp
    qed
    ultimately show ?thesis
      using len by simp
  next
    case False
    have "array_incr arr (p - 1) = arr @ replicate (k - length arr) None @ [Some NaN]"
      using Some False by (simp add: array_incr_def)
    moreover have "p \<noteq> real (i + 1)" if "i < 10" for i
      using that False len p by simp
    ultimately show ?thesis
      using len cells by (simp add: nth_append)
  qed
qed

lemma level_count_Cons:
  "level_count l (e # es) = (if power_level e = real l then 1 else 0) + level_count l es"
  by (simp add: level_count_def)

lemma histogram_fold:
  assumes "10 \<le> length arr"
    and "\<And>i. i < 10 \<Longrightarrow> arr ! i = Some (Fin (c i))"
  shows "10 \<le> length (foldl (\<lambda>dist entry. array_incr dist (power_level entry - 1)) arr es) \<and>
         (\<forall>i<10. foldl (\<lambda>dist entry. array_incr dist (power_level entry - 1)) arr es ! i =
                   Some (Fin (c i + real (level_count (i + 1) es))))"
  using assms
proof (induction es arbitrary: arr c)
  case Nil
  then show ?case by (simp add: level_count_def)
next
  case (Cons e es)
  let ?arr = "array_incr arr (power_level e - 1)"
  let ?c = "\<lambda>i. c i + (if power_level e = real (i + 1) then 1 else 0)"
  have step: "10 \<le> length ?arr \<and> (\<forall>i<10. ?arr ! i = Some (Fin (?c i)))"
    using array_incr_first_ten [of arr c "power_level e"] Cons.prems by simp
  have "10 \<le> length (foldl (\<lambda>dist entry. array_incr dist (power_level entry - 1)) ?arr es) \<and>
         (\<forall>i<10. foldl (\<lambda>dist entry. array_incr dist (power_level entry - 1)) ?arr es ! i =
                   Some (Fin (?c i + real (level_count (i + 1) es))))"
    using step by (intro Cons.IH) simp_all
  then show ?case
    by (simp add: level_count_Cons add.assoc)
qed

lemma array_incr_in_range:
  assumes "length arr = 10" and "l \<in> {1..10}"
  shows "length (array_incr arr (real l - 1)) = 10"
proof -
  obtain k where k: "l = k + 1" "k < 10"
    using assms(2) by (cases l) auto
  then have "array_index (real l - 1) = Some k"
    using array_index_nat [of k] by simp
  with assms(1) k show ?thesis
    by (simp add: array_incr_def)
qed

lemma histogram_fold_length:
  assumes "length arr = 10"
    and "\<And>e. e \<in> set es \<Longrightarrow> \<exists>l\<in>{1..10}. power_level e = real l"
  shows "length (foldl (\<lambda>dist entry. array_incr dist (power_level entry - 1)) arr es) = 10"
  using assms
proof (induction es arbitrary: arr)
  case Nil
  then show ?case by simp
next
  case (Cons e es)
  obtain l where "l \<in> {1..10}" "power_level e = real l"
    using Cons.prems(2) [of e] by auto
  then have "length (array_incr arr (power_level e - 1)) = 10"
    using array_incr_in_range [OF Cons.prems(1)] by simp
  then show ?case
    using Cons.IH [of "array_incr arr (power_level e - 1)"] Cons.prems(2) by simp
qed

lemma level_counts_total:
  assumes "\<And>e. e \<in> set es \<Longrightarrow> \<exists>l\<in>{1..10}. power_level e = real l"
  shows "sum_list (map (\<lambda>l. real (level_count l es)) [1..<11]) = real (length es)"
  using assms
proof (induction es)
  case Nil
  show ?case by (simp add: level_count_def)
next
  case (Cons e es)
  obtain l0 where l0: "l0 \<in> {1..10}" "power_level e = real l0"
    using Cons.prems [of e] by auto
  have "sum_list (map (\<lambda>l. if power_level e = real l then 1 else 0) [1..<11]) = (1 :: real)"
    using l0 by (simp add: sum_list_distinct_conv_sum_set)
  moreover have "sum_list (map (\<lambda>l. real (level_count l es)) [1..<11]) = real (length es)"
    using Cons.prems by (intro Cons.IH) simp
  moreover have "(\<lambda>l. real (level_count l (e # es))) =
      (\<lambda>l. (if power_level e = real l then 1 else 0) + real (level_count l es))"
    by (auto simp: level_count_Cons fun_eq_iff)
  ultimately show ?case
    by (simp only: sum_list_addf) simp
qed

lemma present_Some: "present (map (\<lambda>x. Some (f x)) xs) = map f xs"
  by (induction xs) simp_all

lemma distribution_cells:
  fixes dat :: ConfidenceData
  defines "cells \<equiv> foldl (\<lambda>dist day. foldl (\<lambda>dist entry. array_incr dist (power_level entry - 1)) dist (entries day))
              (replicate 10 (Some (Fin 0))) (Object_values dat)"
  shows "10 \<le> length cells \<and>
         (\<forall>i<10. cells ! i = Some (Fin (real (level_count (i + 1) (all_entries dat)))))"
proof -
  have "cells = foldl (\<lambda>dist entry. array_incr dist (power_level entry - 1))
      (replicate 10 (Some (Fin 0))) (all_entries dat)"
    by (simp add: cells_def foldl_days_concat Object_values_def all_entries_def comp_def)
  then show ?thesis
    using histogram_fold [of "replicate 10 (Some (Fin 0))" "\<lambda>i. 0" "all_entries dat"]
    by simp
qed

text \<open>
  C4, as amended. The first ten buckets of the histogram are the levels 1 to 10, and
  bucket \<open>l\<close> counts the entries whose power level is exactly \<open>l\<close>. When every power
  level is a whole number from 1 to 10, the histogram has these ten buckets only and
  their counts sum to the number of entries.
\<close>

theorem histogram_buckets:
  "take 10 (getPowerLevelDistribution dat) =
     map (\<lambda>l. Some \<lparr> level = l, count = Fin (real (level_count l (all_entries dat))) \<rparr>) [1..<11]
   \<and> ((\<forall>e \<in> set (all_entries dat). \<exists>l\<in>{1..10}. power_level e = real l) \<longrightarrow>
        length (getPowerLevelDistribution dat) = 10
        \<and> js_sum (map count (present (getPowerLevelDistribution dat))) =
            Fin (real (length (all_entries dat))))"
proof (intro conjI impI)
  let ?dist = "foldl (\<lambda>dist day. foldl (\<lambda>dist entry. array_incr dist (power_level entry - 1)) dist (entries day))
              (replicate 10 (Some (Fin 0))) (Object_values dat)"
  let ?bucket = "\<lambda>l. \<lparr> level = l, count = Fin (real (level_count l (all_entries dat))) \<rparr>"
  have cells: "10 \<le> length ?dist"
    "\<And>i. i < 10 \<Longrightarrow> ?dist ! i = Some (Fin (real (level_count (i + 1) (all_entries dat))))"
    using distribution_cells [of dat] by simp_all
  show first: "take 10 (getPowerLevelDistribution dat) = map (\<lambda>l. Some (?bucket l)) [1..<11]"
  proof (rule nth_equalityI)
    show "length (take 10 (getPowerLevelDistribution dat)) = length (map (\<lambda>l. Some (?bucket l)) [1..<11])"
      using cells(1) by (simp add: getPowerLevelDistribution_def Let_def)
    fix i assume "i < length (take 10 (getPowerLevelDistribution dat))"
    then have i: "i < 10" by simp
    then have "[1..<11] ! i = i + 1" by simp
    with i cells show "take 10 (getPowerLevelDistribution dat) ! i = map (\<lambda>l. Some (?bucket l)) [1..<11] ! i"
      by (simp add: getPowerLevelDistribution_def Let_def nth_enumerate_eq)
  qed
  assume range: "\<forall>e \<in> set (all_entries dat). \<exists>l\<in>{1..10}. power_level e = real l"
  have "?dist = foldl (\<lambda>dist entry. array_incr dist (power_level entry - 1))
      (replicate 10 (Some (Fin 0))) (all_entries dat)"
    by (simp add: foldl_days_concat Object_values_def all_entries_def comp_def)
  then have "length ?dist = 10"
    using histogram_fold_length [of "replicate 10 (Some (Fin 0))" "all_entries dat"] range by simp
  then show len: "length (getPowerLevelDistribution dat) = 10"
    by (simp add: getPowerLevelDistribution_def Let_def)
  then have "getPowerLevelDistribution dat = map (\<lambda>l. Some (?bucket l)) [1..<11]"
    using first by simp
  then have "js_sum (map count (present (getPowerLevelDistribution dat))) =
      js_sum (map Fin (map (\<lambda>l. real (level_count l (all_entries dat))) [1..<11]))"
    by (simp add: present_Some comp_def)
  also have "\<dots> = Fin (sum_list (map (\<lambda>l. real (level_count l (all_entries dat))) [1..<11]))"
    by (simp only: js_sum_Fin)
  also have "\<dots> = Fin (real (length (all_entries dat)))"
    using level_counts_total [of "all_entries dat"] range by simp
  finally show "js_sum (map count (present (getPowerLevelDistribution dat))) =
      Fin (real (length (all_entries dat)))" .
qed

text \<open>The histogram of the sample collection.\<close>

lemma sample_distribution:
  "getPowerLevelDistribution sample_data =
     [Some \<lparr> level = 1, count = Fin 0 \<rparr>, Some \<lparr> level = 2, count = Fin 0 \<rparr>,
      Some \<lparr> level = 3, count = Fin 0 \<rparr>, Some \<lparr> level = 4, count = Fin 1 \<rparr>,
      Some \<lparr> level = 5, count = Fin 1 \<rparr>, Some \<lparr> level = 6, count = Fin 1 \<rparr>,
      Some \<lparr> level = 7, count = Fin 0 \<rparr>, Some \<lparr> level = 8, count = Fin 1 \<rparr>,
      Some \<lparr> level = 9, count = Fin 0 \<rparr>, Some \<lparr> level = 10, count = Fin 0 \<rparr>]"
  by code_simp

lemma sample_levels: "map power_level (all_entries sample_data) = [6, 8, 4, 5]"
  by (simp add: all_entries_def sample_data_def)

text \<open>The amended C4 on the sample collection, whose levels are 6, 8, 4 and 5.\<close>

theorem histogram_buckets_witness:
  "map power_level (all_entries sample_data) = [6, 8, 4, 5]
   \<and> map (\<lambda>b. count b) (present (getPowerLevelDistribution sample_data)) =
       [Fin 0, Fin 0, Fin 0, Fin 1, Fin 1, Fin 1, Fin 0, Fin 1, Fin 0, Fin 0]
   \<and> length (getPowerLevelDistribution sample_data) = 10
   \<and> js_sum (map count (present (getPowerLevelDistribution sample_data))) = Fin 4"
proof -
  have four: "\<exists>l\<in>{1..10}. (4 :: real) = real l" by (rule bexI [of _ 4]) simp_all
  have five: "\<exists>l\<in>{1..10}. (5 :: real) = real l" by (rule bexI [of _ 5]) simp_all
  have six: "\<exists>l\<in>{1..10}. (6 :: real) = real l" by (rule bexI [of _ 6]) simp_all
  have eight: "\<exists>l\<in>{1..10}. (8 :: real) = real l" by (rule bexI [of _ 8]) simp_all
  have "\<forall>p \<in> set (map power_level (all_entries sample_data)). \<exists>l\<in>{1..10}. p = real l"
    unfolding sample_levels using four five six eight by simp
  then have "\<forall>e \<in> set (all_entries sample_data). \<exists>l\<in>{1..10}. power_level e = real l"
    by simp
  with histogram_buckets [of sample_data]
  have "length (getPowerLevelDistribution sample_data) = 10 \<and>
      js_sum (map count (present (getPowerLevelDistribution sample_data))) =
        Fin (real (length (all_entries sample_data)))"
    by blast
  moreover have "length (all_entries sample_data) = 4"
    by (simp add: all_entries_def sample_data_def)
  moreover have "map (\<lambda>b. count b) (present (getPowerLevelDistribution sample_data)) =
       [Fin 0, Fin 0, Fin 0, Fin 1, Fin 1, Fin 1, Fin 0, Fin 1, Fin 0, Fin 0]"
    by (simp add: sample_distribution)
  ultimately show ?thesis
    using sample_levels by simp
qed

text \<open>
  C4 as stated fails: an entry of power level 0 increments the property \<^verbatim>\<open>-1\<close>, no
  bucket counts it, and the ten counts sum to 0, not 1.
\<close>

theorem histogram_buckets_counterexample:
  "length (all_entries
      [(''2025-01-01'',
        \<lparr> entries = [\<lparr> entry_text = ''spoke up'', category = Self_image,
                        confidence_type = Personal, power_level = 0 \<rparr>],
          daily_confidence_average = Fin 0,
          dominant_confidence_area = Personal \<rparr>)]) = 1
   \<and> js_sum (map count (present (getPowerLevelDistribution
      [(''2025-01-01'',
        \<lparr> entries = [\<lparr> entry_text = ''spoke up'', category = Self_image,
                        confidence_type = Personal, power_level = 0 \<rparr>],
          daily_confidence_average = Fin 0,
          dominant_confidence_area = Personal \<rparr>)]))) = Fin 0"
  by code_simp

text \<open>An entry of power level 12 extends the array: a hole and a twelfth bucket.\<close>

lemma histogram_beyond_ten:
  "getPowerLevelDistribution
      [(''2025-01-01'',
        \<lparr> entries = [\<lparr> entry_text = ''spoke up'', category = Self_image,
                        confidence_type = Personal, power_level = 12 \<rparr>],
          daily_confidence_average = Fin 12,
          dominant_confidence_area = Personal \<rparr>)] =
     map (\<lambda>l. Some \<lparr> level = l, count = Fin 0 \<rparr>) [1..<11] @
     [None, Some \<lparr> level = 12, count = NaN \<rparr>]"
  by code_simp

subsection \<open>The unfiltered memo and the empty collection\<close>

text \<open>
  C10. With no category and no type selected, the memo of the React dashboard returns
  the source collection itself: no day is rebuilt.
\<close>

theorem App_filteredData_no_filter:
  "App_filteredData None None confidenceData = confidenceData"
  by (simp add: App_filteredData_def)

text \<open>
  C3. On the empty collection \<^verbatim>\<open>getOverallStats\<close> divides zero by zero: the average
  and both percentages are not-a-number, the maximum is minus infinity and the minimum
  plus infinity. \<^verbatim>\<open>calculateStats\<close> of the visualizer tests the entry count first
  and returns zero for the average of an empty view.
\<close>

theorem getOverallStats_empty:
  "getOverallStats [] =
     \<lparr> totalDays = 0, totalEntries = 0, avgConfidence = NaN,
       highestConfidence = NegInf, lowestConfidence = PosInf,
       personalPercentage = NaN, professionalPercentage = NaN \<rparr>
   \<and> is_NaN (avgConfidence (getOverallStats []))
   \<and> vis_avgConfidence (calculateStats \<lparr> data = [], filteredData = [] \<rparr>) = Fin 0"
  by (simp add: getOverallStats_def Object_values_def Object_keys_def Math_max_def Math_min_def
      is_NaN_def calculateStats_def)

end
